theory Spec2Isabelle
  imports Main "HOL-Library.Word"
begin

unbundle bit_operations_syntax

section \<open>Scalars\<close>

text \<open>
  The scalar fields of \<^verbatim>\<open>ProcMeshData.h\<close> are \<^verbatim>\<open>int32\<close> and \<^verbatim>\<open>float\<close>. Both are four
  bytes wide. An \<^verbatim>\<open>int32\<close> is a 32-bit word read as two's complement (\<open>sint\<close>); a
  \<^verbatim>\<open>float\<close> is kept as its IEEE-754 binary32 bit pattern, so that copying and
  serialising a float is exact and only the comparisons interpret the bits.
\<close>

type_synonym uint8 = "8 word"
type_synonym int32 = "32 word"
type_synonym float = "32 word"

text \<open>
  Comparison of binary32 values. A pattern is a NaN when its exponent field is all ones
  and its fraction is not zero, that is when its magnitude (the low 31 bits) exceeds
  that of infinity. Two values that are not NaN compare as their sign-magnitude
  integers do (\<open>-0\<close> and \<open>+0\<close> both read 0); every comparison with a NaN is false.
\<close>

definition float_magnitude :: "float \<Rightarrow> int" where
  "float_magnitude f = uint (f AND 0x7FFFFFFF)"

definition float_is_nan :: "float \<Rightarrow> bool" where
  "float_is_nan f = (0x7F800000 < float_magnitude f)"

definition float_key :: "float \<Rightarrow> int" where
  "float_key f = (if bit f 31 then - float_magnitude f else float_magnitude f)"

definition float_le :: "float \<Rightarrow> float \<Rightarrow> bool" where
  "float_le a b = (\<not> float_is_nan a \<and> \<not> float_is_nan b \<and> float_key a \<le> float_key b)"

text \<open>
  The engine's \<^verbatim>\<open>FMath::Min(A, B)\<close> is \<^verbatim>\<open>(A <= B) ? A : B\<close> and \<^verbatim>\<open>FMath::Max(A, B)\<close> is
  \<^verbatim>\<open>(A >= B) ? A : B\<close>; the box below uses them.
\<close>

definition FMath_Min :: "float \<Rightarrow> float \<Rightarrow> float" where
  "FMath_Min A B = (if float_le A B then A else B)"

definition FMath_Max :: "float \<Rightarrow> float \<Rightarrow> float" where
  "FMath_Max A B = (if float_le B A then A else B)"

section \<open>Engine types: FVector and FBox\<close>

record FVector =
  X :: float
  Y :: float
  Z :: float

text \<open>
  Modelled from the spec: \<^verbatim>\<open>FBox\<close> (declared by \<^verbatim>\<open>EngineMinimal.h\<close>, not part of the
  sources at hand). The spec describes an axis-aligned min/max corner pair with a
  canonical empty state holding no point, which adding a point extends to the tight
  bound. The engine keeps the empty state as a validity flag beside two zero corners:
  \<^verbatim>\<open>Init()\<close> and the \<^verbatim>\<open>ForceInitToZero\<close> constructor produce it, the first point added
  to an empty box becomes both corners, a later point moves each corner component by
  \<^verbatim>\<open>FMath::Min\<close> and \<^verbatim>\<open>FMath::Max\<close>, and the two-corner constructor makes a valid box.
\<close>

record FBox =
  Min_corner :: FVector
  Max_corner :: FVector
  IsValid :: bool

definition ZeroVector :: FVector where
  "ZeroVector = \<lparr>X = 0, Y = 0, Z = 0\<rparr>"

definition FBox_Init :: FBox where
  "FBox_Init = \<lparr>Min_corner = ZeroVector, Max_corner = ZeroVector, IsValid = False\<rparr>"

definition FBox_ForceInitToZero :: FBox where
  "FBox_ForceInitToZero = FBox_Init"

definition FBox_corners :: "FVector \<Rightarrow> FVector \<Rightarrow> FBox" where
  "FBox_corners InMin InMax = \<lparr>Min_corner = InMin, Max_corner = InMax, IsValid = True\<rparr>"

definition FBox_add :: "FBox \<Rightarrow> FVector \<Rightarrow> FBox" where
  "FBox_add B Other =
     (if IsValid B then
        \<lparr>Min_corner = \<lparr>X = FMath_Min (X (Min_corner B)) (X Other),
                       Y = FMath_Min (Y (Min_corner B)) (Y Other),
                       Z = FMath_Min (Z (Min_corner B)) (Z Other)\<rparr>,
         Max_corner = \<lparr>X = FMath_Max (X (Max_corner B)) (X Other),
                       Y = FMath_Max (Y (Max_corner B)) (Y Other),
                       Z = FMath_Max (Z (Max_corner B)) (Z Other)\<rparr>,
         IsValid = True\<rparr>
      else \<lparr>Min_corner = Other, Max_corner = Other, IsValid = True\<rparr>)"

section \<open>FProcMeshVertex and FProcMeshSection\<close>

record FProcMeshVertex =
  PositionX :: float
  PositionY :: float
  PositionZ :: float
  NormalX :: float
  NormalY :: float
  NormalZ :: float
  MatIdx :: int32

record FProcMeshSection =
  ProcVertexBuffer :: "FProcMeshVertex list"
  ProcIndexBuffer :: "int32 list"
  SectionLocalBox :: FBox

text \<open>The constructor: two empty arrays and \<^verbatim>\<open>SectionLocalBox(EForceInit::ForceInitToZero)\<close>.\<close>

definition FProcMeshSection_new :: FProcMeshSection where
  "FProcMeshSection_new =
     \<lparr>ProcVertexBuffer = [], ProcIndexBuffer = [], SectionLocalBox = FBox_ForceInitToZero\<rparr>"

definition Reset :: "FProcMeshSection \<Rightarrow> FProcMeshSection" where
  "Reset s = s\<lparr>ProcVertexBuffer := [], ProcIndexBuffer := [], SectionLocalBox := FBox_Init\<rparr>"

definition Pos :: "FProcMeshVertex \<Rightarrow> FVector" where
  "Pos Vertex = \<lparr>X = PositionX Vertex, Y = PositionY Vertex, Z = PositionZ Vertex\<rparr>"

definition AddVertex :: "FProcMeshSection \<Rightarrow> FProcMeshVertex \<Rightarrow> FProcMeshSection" where
  "AddVertex s Vertex =
     s\<lparr>ProcVertexBuffer := ProcVertexBuffer s @ [Vertex],
       SectionLocalBox := FBox_add (SectionLocalBox s) (Pos Vertex)\<rparr>"

text \<open>Appending an index is \<^verbatim>\<open>ProcIndexBuffer.Add(Index)\<close>.\<close>

definition AddIndex :: "FProcMeshSection \<Rightarrow> int32 \<Rightarrow> FProcMeshSection" where
  "AddIndex s Index = s\<lparr>ProcIndexBuffer := ProcIndexBuffer s @ [Index]\<rparr>"

section \<open>Archives\<close>

text \<open>
  Modelled from the spec: the archives \<^verbatim>\<open>FBufferArchive\<close> and \<^verbatim>\<open>FMemoryReader\<close> (engine
  types that come with \<^verbatim>\<open>EngineMinimal.h\<close>, not part of the sources at hand). The spec
  has every scalar at its natural fixed width, with no padding and no framing, in the
  order of the writes: \<^verbatim>\<open>operator<<\<close> on an \<^verbatim>\<open>int32\<close> or a \<^verbatim>\<open>float\<close> moves the four bytes
  of the value, lowest byte first, to or from the archive.
\<close>

definition bytes_of_word32 :: "32 word \<Rightarrow> uint8 list" where
  "bytes_of_word32 w =
     [ucast w, ucast (drop_bit 8 w), ucast (drop_bit 16 w), ucast (drop_bit 24 w)]"

definition word32_of_bytes :: "uint8 \<Rightarrow> uint8 \<Rightarrow> uint8 \<Rightarrow> uint8 \<Rightarrow> 32 word" where
  "word32_of_bytes b0 b1 b2 b3 =
     ucast b0 OR push_bit 8 (ucast b1) OR push_bit 16 (ucast b2) OR push_bit 24 (ucast b3)"

text \<open>
  \<^verbatim>\<open>FBufferArchive\<close> is a byte array that every write extends at its end.
\<close>

type_synonym FBufferArchive = "uint8 list"

definition write32 :: "FBufferArchive \<Rightarrow> 32 word \<Rightarrow> FBufferArchive" where
  "write32 BinaryData w = BinaryData @ bytes_of_word32 w"

text \<open>
  \<^verbatim>\<open>FMemoryReader\<close> reads a byte array from a moving offset. Of the end of the stream
  the spec speaks only as an error of the decoder; the reader itself, in the engine,
  has \<^verbatim>\<open>Serialize(Data, Num)\<close> copy \<^verbatim>\<open>Num\<close> bytes and advance when the archive is not in
  error and the bytes are there, and, when they are not, set the archive's error flag
  \<^verbatim>\<open>ArIsError\<close> and leave the destination as it was. It returns in both cases. Once in
  error the reader copies nothing more.
\<close>

record FMemoryReader =
  Bytes :: "uint8 list"
  Offset :: nat
  ArIsError :: bool

definition Serialize :: "FMemoryReader \<Rightarrow> nat \<Rightarrow> uint8 list option \<times> FMemoryReader" where
  "Serialize Ar Num =
     (if Num \<noteq> 0 \<and> \<not> ArIsError Ar then
        if Offset Ar + Num \<le> length (Bytes Ar)
        then (Some (take Num (drop (Offset Ar) (Bytes Ar))), Ar\<lparr>Offset := Offset Ar + Num\<rparr>)
        else (None, Ar\<lparr>ArIsError := True\<rparr>)
      else (None, Ar))"

text \<open>
  \<open>read32 Ar old\<close> is \<^verbatim>\<open>Ar << V\<close> for a four-byte \<^verbatim>\<open>V\<close> that holds \<open>old\<close> before the
  read: the value read and the archive after it.
\<close>

definition read32 :: "FMemoryReader \<Rightarrow> 32 word \<Rightarrow> 32 word \<times> FMemoryReader" where
  "read32 Ar old =
     (case Serialize Ar 4 of
        (Some [b0, b1, b2, b3], Ar') \<Rightarrow> (word32_of_bytes b0 b1 b2 b3, Ar')
      | (_, Ar') \<Rightarrow> (old, Ar'))"

definition FMemoryReader_new :: "uint8 list \<Rightarrow> FMemoryReader" where
  "FMemoryReader_new bs = \<lparr>Bytes = bs, Offset = 0, ArIsError = False\<rparr>"

section \<open>SerializeMesh\<close>

text \<open>One pass of the loop over \<^verbatim>\<open>ProcVertexBuffer\<close>: seven writes.\<close>

definition write_vertex :: "FBufferArchive \<Rightarrow> FProcMeshVertex \<Rightarrow> FBufferArchive" where
  "write_vertex BinaryData Vertex =
     (let PosX = PositionX Vertex; PosY = PositionY Vertex; PosZ = PositionZ Vertex;
          BinaryData = write32 BinaryData PosX;
          BinaryData = write32 BinaryData PosY;
          BinaryData = write32 BinaryData PosZ;
          NormX = NormalX Vertex; NormY = NormalY Vertex; NormZ = NormalZ Vertex;
          BinaryData = write32 BinaryData NormX;
          BinaryData = write32 BinaryData NormY;
          BinaryData = write32 BinaryData NormZ;
          MatI = MatIdx Vertex
      in write32 BinaryData MatI)"

text \<open>
  \<^verbatim>\<open>TArray::Num()\<close> is an \<^verbatim>\<open>int32\<close>: the length of the array, which the array type keeps
  below \<open>2 ^ 31\<close>.
\<close>

definition Num :: "'a list \<Rightarrow> int32" where
  "Num xs = word_of_nat (length xs)"

definition SerializeMesh :: "FProcMeshSection \<Rightarrow> FBufferArchive \<Rightarrow> FBufferArchive" where
  "SerializeMesh s BinaryData =
     (let VertexNum = Num (ProcVertexBuffer s);
          BinaryData = write32 BinaryData VertexNum;
          MaxX = X (Max_corner (SectionLocalBox s));
          MaxY = Y (Max_corner (SectionLocalBox s));
          MaxZ = Z (Max_corner (SectionLocalBox s));
          MinX = X (Min_corner (SectionLocalBox s));
          MinY = Y (Min_corner (SectionLocalBox s));
          MinZ = Z (Min_corner (SectionLocalBox s));
          BinaryData = write32 BinaryData MinX;
          BinaryData = write32 BinaryData MinY;
          BinaryData = write32 BinaryData MinZ;
          BinaryData = write32 BinaryData MaxX;
          BinaryData = write32 BinaryData MaxY;
          BinaryData = write32 BinaryData MaxZ;
          BinaryData = foldl write_vertex BinaryData (ProcVertexBuffer s);
          IndexNum = Num (ProcIndexBuffer s);
          BinaryData = write32 BinaryData IndexNum
      in foldl write32 BinaryData (ProcIndexBuffer s))"

section \<open>DeserializeMesh\<close>

text \<open>
  The locals of \<^verbatim>\<open>DeserializeMesh\<close> are declared without a value, and a read that finds
  the stream at its end leaves its destination alone. What such a local then holds is
  whatever its place on the stack held: for the first pass of a loop the model takes
  these contents as a parameter, and for each later pass the local of the loop body
  (\<^verbatim>\<open>Vertex\<close>, \<^verbatim>\<open>Index\<close>) still holds what the pass before left there. The six locals
  of the persisted box are written by the reads and never read again.
\<close>

record Locals =
  VertexNum_init :: int32
  Vertex_init :: FProcMeshVertex
  IndexNum_init :: int32
  Index_init :: int32

text \<open>The body of the vertex loop, up to the call of \<^verbatim>\<open>AddVertex\<close>.\<close>

definition read_vertex ::
  "FProcMeshVertex \<Rightarrow> FMemoryReader \<Rightarrow> FProcMeshVertex \<times> FMemoryReader" where
  "read_vertex Vertex BinaryData =
     (let (px, BinaryData) = read32 BinaryData (PositionX Vertex);
          (py, BinaryData) = read32 BinaryData (PositionY Vertex);
          (pz, BinaryData) = read32 BinaryData (PositionZ Vertex);
          (nx, BinaryData) = read32 BinaryData (NormalX Vertex);
          (ny, BinaryData) = read32 BinaryData (NormalY Vertex);
          (nz, BinaryData) = read32 BinaryData (NormalZ Vertex);
          (mi, BinaryData) = read32 BinaryData (MatIdx Vertex)
      in (\<lparr>PositionX = px, PositionY = py, PositionZ = pz,
           NormalX = nx, NormalY = ny, NormalZ = nz, MatIdx = mi\<rparr>, BinaryData))"

text \<open>
  \<^verbatim>\<open>for (int Idx = 0; Idx < VertexNum; Idx++)\<close>. \<^verbatim>\<open>Idx\<close> stays at most \<^verbatim>\<open>VertexNum\<close>, an
  \<^verbatim>\<open>int32\<close>, so the increment never overflows and the counters are kept as integers.
  The first argument of each loop is what the local of its body holds when a pass
  begins: the reads of the pass overwrite it field by field where they succeed, and the
  next pass begins with the result.
\<close>

function vertex_loop ::
  "FProcMeshVertex \<Rightarrow> int \<Rightarrow> int \<Rightarrow> FProcMeshSection \<times> FMemoryReader
     \<Rightarrow> FProcMeshSection \<times> FMemoryReader" where
  "vertex_loop Vertex Idx VertexNum (s, BinaryData) =
     (if Idx < VertexNum then
        (let (Vertex, BinaryData) = read_vertex Vertex BinaryData
         in vertex_loop Vertex (Idx + 1) VertexNum (AddVertex s Vertex, BinaryData))
      else (s, BinaryData))"
  by pat_completeness auto
termination
  by (relation "measure (\<lambda>(Vertex, Idx, VertexNum, st). nat (VertexNum - Idx))") auto

declare vertex_loop.simps [simp del]

function index_loop ::
  "int32 \<Rightarrow> int \<Rightarrow> int \<Rightarrow> FProcMeshSection \<times> FMemoryReader
     \<Rightarrow> FProcMeshSection \<times> FMemoryReader" where
  "index_loop Index Idx IndexNum (s, BinaryData) =
     (if Idx < IndexNum then
        (let (Index, BinaryData) = read32 BinaryData Index
         in index_loop Index (Idx + 1) IndexNum (AddIndex s Index, BinaryData))
      else (s, BinaryData))"
  by pat_completeness auto
termination
  by (relation "measure (\<lambda>(Index, Idx, IndexNum, st). nat (IndexNum - Idx))") auto

declare index_loop.simps [simp del]

definition DeserializeMesh ::
  "Locals \<Rightarrow> FMemoryReader \<Rightarrow> FProcMeshSection \<Rightarrow> FProcMeshSection \<times> FMemoryReader" where
  "DeserializeMesh L BinaryData s =
     (let (VertexNum, BinaryData) = read32 BinaryData (VertexNum_init L);
          (MinX, BinaryData) = read32 BinaryData 0;
          (MinY, BinaryData) = read32 BinaryData 0;
          (MinZ, BinaryData) = read32 BinaryData 0;
          (MaxX, BinaryData) = read32 BinaryData 0;
          (MaxY, BinaryData) = read32 BinaryData 0;
          (MaxZ, BinaryData) = read32 BinaryData 0;
          (s, BinaryData) = vertex_loop (Vertex_init L) 0 (sint VertexNum) (s, BinaryData);
          (IndexNum, BinaryData) = read32 BinaryData (IndexNum_init L);
          (s, BinaryData) = index_loop (Index_init L) 0 (sint IndexNum) (s, BinaryData)
      in (s, BinaryData))"

section \<open>DeserializeMeshFast\<close>

text \<open>
  Modelled from the spec: \<^verbatim>\<open>FastUnsafeDeserializer\<close> (\<^verbatim>\<open>serialization.hpp\<close>, not part of the
  sources at hand). The spec describes a byte cursor whose \<^verbatim>\<open>read(ptr, count)\<close> copies
  \<^verbatim>\<open>count * sizeof(T)\<close> bytes from the cursor into the destination in one bulk
  operation, with no interpretation of the fields and no check against the length of
  the buffer, and whose \<^verbatim>\<open>readObj\<close> reads one object. The caller guarantees that the
  bytes are there: a read beyond the end of the buffer has no defined result, which the
  model renders as \<open>None\<close>.
\<close>

record FastUnsafeDeserializer =
  data :: "uint8 list"
  bytesRead :: nat

definition fast_read ::
  "FastUnsafeDeserializer \<Rightarrow> nat \<Rightarrow> nat \<Rightarrow> (uint8 list \<times> FastUnsafeDeserializer) option" where
  "fast_read D size_of count =
     (let toRead = size_of * count in
      if bytesRead D + toRead \<le> length (data D)
      then Some (take toRead (drop (bytesRead D) (data D)), D\<lparr>bytesRead := bytesRead D + toRead\<rparr>)
      else None)"

text \<open>
  The bytes copied into an array of four-byte scalars, and into an array of
  \<^verbatim>\<open>FProcMeshVertex\<close>: seven four-byte fields in the order of their declaration,
  28 bytes a record.
\<close>

fun words_of_bytes :: "uint8 list \<Rightarrow> 32 word list" where
  "words_of_bytes (b0 # b1 # b2 # b3 # bs) = word32_of_bytes b0 b1 b2 b3 # words_of_bytes bs"
| "words_of_bytes _ = []"

fun vertices_of_words :: "32 word list \<Rightarrow> FProcMeshVertex list" where
  "vertices_of_words (px # py # pz # nx # ny # nz # mi # ws) =
     \<lparr>PositionX = px, PositionY = py, PositionZ = pz,
      NormalX = nx, NormalY = ny, NormalZ = nz, MatIdx = mi\<rparr> # vertices_of_words ws"
| "vertices_of_words _ = []"

definition read_words ::
  "FastUnsafeDeserializer \<Rightarrow> nat \<Rightarrow> (32 word list \<times> FastUnsafeDeserializer) option" where
  "read_words D count = map_option (\<lambda>(bs, D'). (words_of_bytes bs, D')) (fast_read D 4 count)"

definition read_vertices ::
  "FastUnsafeDeserializer \<Rightarrow> nat \<Rightarrow> (FProcMeshVertex list \<times> FastUnsafeDeserializer) option" where
  "read_vertices D count =
     map_option (\<lambda>(bs, D'). (vertices_of_words (words_of_bytes bs), D')) (fast_read D 28 count)"

definition readObj :: "FastUnsafeDeserializer \<Rightarrow> (32 word \<times> FastUnsafeDeserializer) option" where
  "readObj D = map_option (\<lambda>(ws, D'). (hd ws, D')) (read_words D 1)"

text \<open>
  \<^verbatim>\<open>SetNum(n)\<close> followed by the bulk read of \<^verbatim>\<open>n\<close> records into \<^verbatim>\<open>GetData()\<close> leaves the
  array holding exactly the \<^verbatim>\<open>n\<close> records read. \<^verbatim>\<open>SetNum\<close> of a negative count is
  outside the array's contract: no defined result.
\<close>

definition DeserializeMeshFast ::
  "FastUnsafeDeserializer \<Rightarrow> FProcMeshSection
     \<Rightarrow> (FProcMeshSection \<times> FastUnsafeDeserializer) option" where
  "DeserializeMeshFast Deserializer s =
     (case readObj Deserializer of None \<Rightarrow> None | Some (VertexNum, Deserializer) \<Rightarrow>
      case read_words Deserializer 3 of None \<Rightarrow> None | Some (Min3, Deserializer) \<Rightarrow>
      case read_words Deserializer 3 of None \<Rightarrow> None | Some (Max3, Deserializer) \<Rightarrow>
      if sint VertexNum < 0 then None else
      case read_vertices Deserializer (nat (sint VertexNum)) of None \<Rightarrow> None
      | Some (Vertices, Deserializer) \<Rightarrow>
      case readObj Deserializer of None \<Rightarrow> None | Some (IndexNum, Deserializer) \<Rightarrow>
      if sint IndexNum < 0 then None else
      case read_words Deserializer (nat (sint IndexNum)) of None \<Rightarrow> None
      | Some (Indices, Deserializer) \<Rightarrow>
        (let Box = FBox_corners \<lparr>X = Min3 ! 0, Y = Min3 ! 1, Z = Min3 ! 2\<rparr>
                                \<lparr>X = Max3 ! 0, Y = Max3 ! 1, Z = Max3 ! 2\<rparr>
         in Some (s\<lparr>ProcVertexBuffer := Vertices, ProcIndexBuffer := Indices,
                    SectionLocalBox := Box\<rparr>, Deserializer)))"

definition FastUnsafeDeserializer_new :: "uint8 list \<Rightarrow> FastUnsafeDeserializer" where
  "FastUnsafeDeserializer_new bs = \<lparr>data = bs, bytesRead = 0\<rparr>"

section \<open>The wire format as the specification lays it out\<close>

text \<open>
  The table of the specification: the vertex count, the six box values with the min
  corner first, seven scalars a vertex, the index count, the index values.
\<close>

definition vertex_record :: "FProcMeshVertex \<Rightarrow> uint8 list" where
  "vertex_record v =
     bytes_of_word32 (PositionX v) @ bytes_of_word32 (PositionY v) @ bytes_of_word32 (PositionZ v) @
     bytes_of_word32 (NormalX v) @ bytes_of_word32 (NormalY v) @ bytes_of_word32 (NormalZ v) @
     bytes_of_word32 (MatIdx v)"

definition box_record :: "FBox \<Rightarrow> uint8 list" where
  "box_record B =
     bytes_of_word32 (X (Min_corner B)) @ bytes_of_word32 (Y (Min_corner B)) @
     bytes_of_word32 (Z (Min_corner B)) @
     bytes_of_word32 (X (Max_corner B)) @ bytes_of_word32 (Y (Max_corner B)) @
     bytes_of_word32 (Z (Max_corner B))"

definition wire_format :: "FProcMeshSection \<Rightarrow> uint8 list" where
  "wire_format s =
     bytes_of_word32 (Num (ProcVertexBuffer s)) @
     box_record (SectionLocalBox s) @
     concat (map vertex_record (ProcVertexBuffer s)) @
     bytes_of_word32 (Num (ProcIndexBuffer s)) @
     concat (map bytes_of_word32 (ProcIndexBuffer s))"

text \<open>A section as a caller builds it: a sequence of vertex and index appends.\<close>

datatype build_op = Add_Vertex FProcMeshVertex | Add_Index int32

fun apply_op :: "FProcMeshSection \<Rightarrow> build_op \<Rightarrow> FProcMeshSection" where
  "apply_op s (Add_Vertex v) = AddVertex s v"
| "apply_op s (Add_Index i) = AddIndex s i"

definition build :: "FProcMeshSection \<Rightarrow> build_op list \<Rightarrow> FProcMeshSection" where
  "build s ops = foldl apply_op s ops"

fun inserted_vertices :: "build_op list \<Rightarrow> FProcMeshVertex list" where
  "inserted_vertices [] = []"
| "inserted_vertices (Add_Vertex v # ops) = v # inserted_vertices ops"
| "inserted_vertices (Add_Index i # ops) = inserted_vertices ops"

section \<open>The tight bound as the specification words it\<close>

text \<open>
  The component-wise minimum of the inserted positions is a value among them that is
  below or equal to each of them; the maximum likewise. (Among floats \<open>-0\<close> and \<open>+0\<close>
  are two patterns of one number, so a least element is what can be asked for.) The
  order is defined on the values that are not NaN.
\<close>

definition is_least :: "float \<Rightarrow> float list \<Rightarrow> bool" where
  "is_least m xs = (m \<in> set xs \<and> (\<forall>x\<in>set xs. float_le m x))"

definition is_greatest :: "float \<Rightarrow> float list \<Rightarrow> bool" where
  "is_greatest m xs = (m \<in> set xs \<and> (\<forall>x\<in>set xs. float_le x m))"

definition no_nan_position :: "FProcMeshVertex \<Rightarrow> bool" where
  "no_nan_position v =
     (\<not> float_is_nan (PositionX v) \<and> \<not> float_is_nan (PositionY v) \<and>
      \<not> float_is_nan (PositionZ v))"

definition tight_box :: "FBox \<Rightarrow> FProcMeshVertex list \<Rightarrow> bool" where
  "tight_box B vs =
     (IsValid B \<and>
      is_least (X (Min_corner B)) (map PositionX vs) \<and>
      is_least (Y (Min_corner B)) (map PositionY vs) \<and>
      is_least (Z (Min_corner B)) (map PositionZ vs) \<and>
      is_greatest (X (Max_corner B)) (map PositionX vs) \<and>
      is_greatest (Y (Max_corner B)) (map PositionY vs) \<and>
      is_greatest (Z (Max_corner B)) (map PositionZ vs))"

section \<open>The two decoders on a stream, into a new section\<close>

definition decode_safe :: "Locals \<Rightarrow> uint8 list \<Rightarrow> FProcMeshSection" where
  "decode_safe L bs = fst (DeserializeMesh L (FMemoryReader_new bs) FProcMeshSection_new)"

definition decode_fast :: "uint8 list \<Rightarrow> FProcMeshSection option" where
  "decode_fast bs =
     map_option fst (DeserializeMeshFast (FastUnsafeDeserializer_new bs) FProcMeshSection_new)"

section \<open>Example data\<close>

text \<open>
  The positions of the specification's example, as binary32 patterns:
  \<open>1.0 = 0x3F800000\<close>, \<open>-1.0 = 0xBF800000\<close>, \<open>5.0 = 0x40A00000\<close>, \<open>-2.0 = 0xC0000000\<close>.
\<close>

definition vertex_at :: "float \<Rightarrow> float \<Rightarrow> float \<Rightarrow> int32 \<Rightarrow> FProcMeshVertex" where
  "vertex_at px py pz m =
     \<lparr>PositionX = px, PositionY = py, PositionZ = pz,
      NormalX = 0, NormalY = 0, NormalZ = 0x3F800000, MatIdx = m\<rparr>"

definition example_vertices :: "FProcMeshVertex list" where
  "example_vertices =
     [vertex_at 0x3F800000 0 0 1, vertex_at 0xBF800000 0x40A00000 0 2, vertex_at 0 0 0xC0000000 3]"

definition example_ops :: "build_op list" where
  "example_ops = [Add_Vertex (vertex_at 0x3F800000 0 0 1), Add_Index 0,
                  Add_Vertex (vertex_at 0xBF800000 0x40A00000 0 2), Add_Index 1]"

definition zero_locals :: Locals where
  "zero_locals = \<lparr>VertexNum_init = 0, Vertex_init = vertex_at 0 0 0 0,
                   IndexNum_init = 0, Index_init = 0\<rparr>"

text \<open>
  A section whose box was set to the unit cube at the origin, away from its one vertex
  at \<open>(5, 5, 5)\<close>.
\<close>

definition wrong_box_section :: FProcMeshSection where
  "wrong_box_section =
     \<lparr>ProcVertexBuffer = [vertex_at 0x40A00000 0x40A00000 0x40A00000 1],
      ProcIndexBuffer = [0],
      SectionLocalBox = FBox_corners \<lparr>X = 0, Y = 0, Z = 0\<rparr>
                                     \<lparr>X = 0x3F800000, Y = 0x3F800000, Z = 0x3F800000\<rparr>\<rparr>"

text \<open>
  Three vertices at \<open>(1, 1, 1)\<close>, at a position whose components are NaN
  (\<open>0x7FC00000\<close>), and at \<open>(5, -2, 0)\<close>.
\<close>

definition nan_ops :: "build_op list" where
  "nan_ops = [Add_Vertex (vertex_at 0x3F800000 0x3F800000 0x3F800000 1),
              Add_Vertex (vertex_at 0x7FC00000 0x7FC00000 0x7FC00000 2),
              Add_Vertex (vertex_at 0x40A00000 0xC0000000 0 3)]"

text \<open>A section with one vertex whose index buffer names vertices 5 and \<open>-1\<close>.\<close>

definition bad_index_section :: FProcMeshSection where
  "bad_index_section =
     \<lparr>ProcVertexBuffer = [vertex_at 0x3F800000 0 0 1],
      ProcIndexBuffer = [5, - 1],
      SectionLocalBox = FBox_corners \<lparr>X = 0x3F800000, Y = 0, Z = 0\<rparr>
                                     \<lparr>X = 0x3F800000, Y = 0, Z = 0\<rparr>\<rparr>"

text \<open>
  A stream whose two counts are both \<open>-1\<close>: the four bytes \<open>FF\<close> of the vertex count, 24
  bytes of box, the four bytes \<open>FF\<close> of the index count.
\<close>

definition negative_count_stream :: "uint8 list" where
  "negative_count_stream = [255, 255, 255, 255] @ replicate 24 0 @ [255, 255, 255, 255]"

text \<open>
  The stream of a section of two vertices, cut before the material index of the second
  vertex: 4 + 24 + 28 + 24 = 80 bytes are left.
\<close>

definition truncated_stream :: "uint8 list" where
  "truncated_stream = take 80 (SerializeMesh (build FProcMeshSection_new example_ops) [])"

section \<open>Bytes and words\<close>

lemma word32_of_bytes_of_word32:
  "word32_of_bytes (ucast w) (ucast (drop_bit 8 w)) (ucast (drop_bit 16 w)) (ucast (drop_bit 24 w)) = w"
proof (rule bit_word_eqI)
  fix n assume "n < LENGTH(32)"
  then have n: "n < 32" by simp
  consider (a) "n < 8" | (b) "8 \<le> n" "n < 16" | (c) "16 \<le> n" "n < 24" | (d) "24 \<le> n"
    by linarith
  then show "bit (word32_of_bytes (ucast w) (ucast (drop_bit 8 w)) (ucast (drop_bit 16 w))
         (ucast (drop_bit 24 w))) n = bit w n"
  proof cases
    case a
    then show ?thesis by (simp add: word32_of_bytes_def bit_simps) arith?
  next
    case b
    then have "n - 8 < 8" "8 + (n - 8) = n" "\<not> n < 8" "\<not> 16 \<le> n" "\<not> 24 \<le> n" "n < 32" by arith+
    with b show ?thesis by (simp add: word32_of_bytes_def bit_simps) arith?
  next
    case c
    then have "n - 16 < 8" "16 + (n - 16) = n" "\<not> n < 8" "\<not> n - 8 < 8" "\<not> 24 \<le> n" "n < 32" by arith+
    with c show ?thesis by (simp add: word32_of_bytes_def bit_simps) arith?
  next
    case d
    with n have "n - 24 < 8" "24 + (n - 24) = n" "\<not> n < 8" "\<not> n - 8 < 8" "\<not> n - 16 < 8" by arith+
    with d n show ?thesis by (simp add: word32_of_bytes_def bit_simps) arith?
  qed
qed

lemma length_bytes_of_word32 [simp]: "length (bytes_of_word32 w) = 4"
  by (simp add: bytes_of_word32_def)

lemma length_vertex_record [simp]: "length (vertex_record v) = 28"
  by (simp add: vertex_record_def)

lemma length_box_record [simp]: "length (box_record B) = 24"
  by (simp add: box_record_def)

lemma length_concat_vertex_record [simp]:
  "length (concat (map vertex_record vs)) = 28 * length vs"
  by (induction vs) simp_all

lemma length_concat_bytes_of_word32 [simp]:
  "length (concat (map bytes_of_word32 ws)) = 4 * length ws"
  by (induction ws) simp_all

lemma sint_Num: "length xs < 2 ^ 31 \<Longrightarrow> sint (Num xs) = int (length xs)"
proof -
  assume "length xs < 2 ^ 31"
  then have "int (length xs) < 2 ^ 31"
    by (metis of_nat_less_iff of_nat_numeral of_nat_power)
  then have "signed_take_bit 31 (int (length xs)) = int (length xs)"
    by (intro signed_take_bit_int_eq_self) simp_all
  then show ?thesis
    by (simp add: Num_def signed_of_nat)
qed


section \<open>Writing\<close>

lemma write_vertex_eq: "write_vertex ar v = ar @ vertex_record v"
  by (simp add: write_vertex_def write32_def vertex_record_def Let_def)

lemma foldl_write_vertex: "foldl write_vertex ar vs = ar @ concat (map vertex_record vs)"
  by (induction vs arbitrary: ar) (simp_all add: write_vertex_eq)

lemma foldl_write32: "foldl write32 ar ws = ar @ concat (map bytes_of_word32 ws)"
  by (induction ws arbitrary: ar) (simp_all add: write32_def)

lemma SerializeMesh_eq: "SerializeMesh s ar = ar @ wire_format s"
  by (simp add: SerializeMesh_def wire_format_def box_record_def Let_def
      foldl_write_vertex foldl_write32 write32_def)

section \<open>Reading what was written\<close>

lemma read32_ok:
  assumes "\<not> ArIsError Ar" "drop (Offset Ar) (Bytes Ar) = bytes_of_word32 w @ rest"
  shows "read32 Ar old = (w, Ar\<lparr>Offset := Offset Ar + 4\<rparr>)"
proof -
  have "length (drop (Offset Ar) (Bytes Ar)) \<ge> 4"
    using assms(2) by simp
  then have len: "Offset Ar + 4 \<le> length (Bytes Ar)"
    by simp
  have tk: "take 4 (drop (Offset Ar) (Bytes Ar)) = bytes_of_word32 w"
    using assms(2) by simp
  show ?thesis
    using assms(1) len tk
    by (simp add: read32_def Serialize_def bytes_of_word32_def word32_of_bytes_of_word32)
qed

lemma drop_after:
  assumes "drop n bs = a @ rest" "length a = k"
  shows "drop (n + k) bs = rest"
proof -
  have "drop (n + k) bs = drop k (drop n bs)"
    by (simp add: add.commute)
  then show ?thesis using assms by simp
qed

lemma read32_at:
  assumes "\<not> ArIsError Ar" "drop (Offset Ar + k) (Bytes Ar) = bytes_of_word32 w @ rest"
  shows "read32 (Ar\<lparr>Offset := Offset Ar + k\<rparr>) old = (w, Ar\<lparr>Offset := Offset Ar + (k + 4)\<rparr>)"
    and "drop (Offset Ar + (k + 4)) (Bytes Ar) = rest"
proof -
  show "read32 (Ar\<lparr>Offset := Offset Ar + k\<rparr>) old = (w, Ar\<lparr>Offset := Offset Ar + (k + 4)\<rparr>)"
    using read32_ok [of "Ar\<lparr>Offset := Offset Ar + k\<rparr>" w rest old] assms
    by (simp add: add.assoc)
  show "drop (Offset Ar + (k + 4)) (Bytes Ar) = rest"
    using drop_after [OF assms(2), of 4] by (simp add: add.assoc)
qed

lemma read_vertex_ok:
  assumes ok: "\<not> ArIsError Ar"
    and d: "drop (Offset Ar) (Bytes Ar) = vertex_record v @ rest"
  shows "read_vertex junk Ar = (v, Ar\<lparr>Offset := Offset Ar + 28\<rparr>)"
proof -
  let ?r = "\<lambda>k. Ar\<lparr>Offset := Offset Ar + k\<rparr>"
  have d0: "drop (Offset Ar + 0) (Bytes Ar) =
      bytes_of_word32 (PositionX v) @ bytes_of_word32 (PositionY v) @ bytes_of_word32 (PositionZ v) @
      bytes_of_word32 (NormalX v) @ bytes_of_word32 (NormalY v) @ bytes_of_word32 (NormalZ v) @
      bytes_of_word32 (MatIdx v) @ rest"
    using d by (simp add: vertex_record_def)
  note s1 = read32_at [OF ok d0, simplified]
  note s2 = read32_at [OF ok s1(2), simplified]
  note s3 = read32_at [OF ok s2(2), simplified]
  note s4 = read32_at [OF ok s3(2), simplified]
  note s5 = read32_at [OF ok s4(2), simplified]
  note s6 = read32_at [OF ok s5(2), simplified]
  note s7 = read32_at [OF ok s6(2), simplified]
  show ?thesis
    by (simp add: read_vertex_def s1(1) s2(1) s3(1) s4(1) s5(1) s6(1) s7(1))
qed

lemma foldl_AddVertex:
  "foldl AddVertex s vs =
     s\<lparr>ProcVertexBuffer := ProcVertexBuffer s @ vs,
       SectionLocalBox := foldl FBox_add (SectionLocalBox s) (map Pos vs)\<rparr>"
  by (induction vs arbitrary: s) (simp_all add: AddVertex_def)

lemma foldl_AddIndex:
  "foldl AddIndex s ws = s\<lparr>ProcIndexBuffer := ProcIndexBuffer s @ ws\<rparr>"
  by (induction ws arbitrary: s) (simp_all add: AddIndex_def)

lemma vertex_loop_ok:
  assumes "\<not> ArIsError Ar"
    and "drop (Offset Ar) (Bytes Ar) = concat (map vertex_record vs) @ rest"
    and "int (length vs) = max 0 (VertexNum - Idx)"
  shows "vertex_loop junk Idx VertexNum (s, Ar) =
           (foldl AddVertex s vs, Ar\<lparr>Offset := Offset Ar + 28 * length vs\<rparr>)"
  using assms
proof (induction vs arbitrary: s Ar Idx junk)
  case Nil
  then have "\<not> Idx < VertexNum" by (simp add: max_def split: if_splits)
  then show ?case by (simp add: vertex_loop.simps [of junk Idx])
next
  case (Cons v vs)
  from Cons.prems(3) have lt: "Idx < VertexNum"
    and nx: "int (length vs) = max 0 (VertexNum - (Idx + 1))"
    by (simp_all add: max_def split: if_splits)
  from Cons.prems(2) have d: "drop (Offset Ar) (Bytes Ar) = vertex_record v @ (concat (map vertex_record vs) @ rest)"
    by simp
  have rv: "read_vertex junk Ar = (v, Ar\<lparr>Offset := Offset Ar + 28\<rparr>)"
    using read_vertex_ok [OF Cons.prems(1) d] .
  have d': "drop (Offset (Ar\<lparr>Offset := Offset Ar + 28\<rparr>)) (Bytes (Ar\<lparr>Offset := Offset Ar + 28\<rparr>))
            = concat (map vertex_record vs) @ rest"
    using drop_after [OF d, of 28] by simp
  have "vertex_loop v (Idx + 1) VertexNum (AddVertex s v, Ar\<lparr>Offset := Offset Ar + 28\<rparr>) =
          (foldl AddVertex (AddVertex s v) vs,
           Ar\<lparr>Offset := Offset Ar + 28\<rparr>\<lparr>Offset := Offset (Ar\<lparr>Offset := Offset Ar + 28\<rparr>) + 28 * length vs\<rparr>)"
    using Cons.prems(1) nx by (intro Cons.IH [OF _ d']) simp_all
  then show ?case
    using lt rv by (simp add: add.assoc vertex_loop.simps [of junk Idx])
qed

lemma index_loop_ok:
  assumes "\<not> ArIsError Ar"
    and "drop (Offset Ar) (Bytes Ar) = concat (map bytes_of_word32 ws) @ rest"
    and "int (length ws) = max 0 (IndexNum - Idx)"
  shows "index_loop junk Idx IndexNum (s, Ar) =
           (foldl AddIndex s ws, Ar\<lparr>Offset := Offset Ar + 4 * length ws\<rparr>)"
  using assms
proof (induction ws arbitrary: s Ar Idx junk)
  case Nil
  then have "\<not> Idx < IndexNum" by (simp add: max_def split: if_splits)
  then show ?case by (simp add: index_loop.simps [of junk Idx])
next
  case (Cons w ws)
  from Cons.prems(3) have lt: "Idx < IndexNum"
    and nx: "int (length ws) = max 0 (IndexNum - (Idx + 1))"
    by (simp_all add: max_def split: if_splits)
  from Cons.prems(2) have d: "drop (Offset Ar) (Bytes Ar) = bytes_of_word32 w @ (concat (map bytes_of_word32 ws) @ rest)"
    by simp
  have rv: "read32 Ar junk = (w, Ar\<lparr>Offset := Offset Ar + 4\<rparr>)"
    using read32_ok [OF Cons.prems(1) d] .
  have d': "drop (Offset (Ar\<lparr>Offset := Offset Ar + 4\<rparr>)) (Bytes (Ar\<lparr>Offset := Offset Ar + 4\<rparr>))
            = concat (map bytes_of_word32 ws) @ rest"
    using drop_after [OF d, of 4] by simp
  have "index_loop w (Idx + 1) IndexNum (AddIndex s w, Ar\<lparr>Offset := Offset Ar + 4\<rparr>) =
          (foldl AddIndex (AddIndex s w) ws,
           Ar\<lparr>Offset := Offset Ar + 4\<rparr>\<lparr>Offset := Offset (Ar\<lparr>Offset := Offset Ar + 4\<rparr>) + 4 * length ws\<rparr>)"
    using Cons.prems(1) nx by (intro Cons.IH [OF _ d']) simp_all
  then show ?case
    using lt rv by (simp add: add.assoc index_loop.simps [of junk Idx])
qed

lemma length_wire_format:
  "length (wire_format s) =
     4 + 24 + 28 * length (ProcVertexBuffer s) + 4 + 4 * length (ProcIndexBuffer s)"
  by (simp add: wire_format_def)

lemma DeserializeMesh_stream:
  assumes ok: "\<not> ArIsError Ar"
    and d: "drop (Offset Ar) (Bytes Ar) =
              bytes_of_word32 vn @ box_record B @ concat (map vertex_record vs) @
              bytes_of_word32 inum @ concat (map bytes_of_word32 ws) @ rest"
    and nv: "int (length vs) = max 0 (sint vn)"
    and ni: "int (length ws) = max 0 (sint inum)"
  shows "DeserializeMesh L Ar t =
           (foldl AddIndex (foldl AddVertex t vs) ws,
            Ar\<lparr>Offset := Offset Ar + (32 + 28 * length vs + 4 * length ws)\<rparr>)"
proof -
  let ?tail = "bytes_of_word32 inum @ concat (map bytes_of_word32 ws) @ rest"
  let ?r = "\<lambda>k. Ar\<lparr>Offset := Offset Ar + k\<rparr>"
  have d0: "drop (Offset Ar + 0) (Bytes Ar) =
      bytes_of_word32 vn @
      bytes_of_word32 (X (Min_corner B)) @ bytes_of_word32 (Y (Min_corner B)) @
      bytes_of_word32 (Z (Min_corner B)) @
      bytes_of_word32 (X (Max_corner B)) @ bytes_of_word32 (Y (Max_corner B)) @
      bytes_of_word32 (Z (Max_corner B)) @
      concat (map vertex_record vs) @ ?tail"
    using d by (simp add: box_record_def)
  note s1 = read32_at [OF ok d0, simplified]
  note s2 = read32_at [OF ok s1(2), simplified]
  note s3 = read32_at [OF ok s2(2), simplified]
  note s4 = read32_at [OF ok s3(2), simplified]
  note s5 = read32_at [OF ok s4(2), simplified]
  note s6 = read32_at [OF ok s5(2), simplified]
  note s7 = read32_at [OF ok s6(2), simplified]
  have vl: "vertex_loop (Vertex_init L) 0 (sint vn) (t, ?r 28) =
              (foldl AddVertex t vs, ?r (28 + 28 * length vs))"
    using vertex_loop_ok [of "?r 28" vs ?tail "sint vn" 0 "Vertex_init L" t]
      ok s7(2) nv
    by (simp add: add.assoc)
  have dv: "drop (Offset Ar + (28 + 28 * length vs)) (Bytes Ar) = ?tail"
    using drop_after [OF s7(2), of "28 * length vs"] by (simp add: add.assoc)
  note s8 = read32_at [OF ok dv]
  have il: "index_loop (Index_init L) 0 (sint inum)
              (foldl AddVertex t vs, ?r (28 + 28 * length vs + 4)) =
              (foldl AddIndex (foldl AddVertex t vs) ws,
               ?r (28 + 28 * length vs + 4 + 4 * length ws))"
    using index_loop_ok [of "?r (28 + 28 * length vs + 4)" ws rest "sint inum" 0
        "Index_init L" "foldl AddVertex t vs"]
      ok s8(2) ni
    by (simp add: add.assoc)
  show ?thesis
    unfolding DeserializeMesh_def
    using ok vl s8(1) il
    by (simp add: s1(1) s2(1) s3(1) s4(1) s5(1) s6(1) s7(1) add.assoc)
qed

lemma DeserializeMesh_wire_format:
  assumes ok: "\<not> ArIsError Ar"
    and d: "drop (Offset Ar) (Bytes Ar) = wire_format s @ rest"
    and nv: "length (ProcVertexBuffer s) < 2 ^ 31"
    and ni: "length (ProcIndexBuffer s) < 2 ^ 31"
  shows "DeserializeMesh L Ar t =
           (t\<lparr>ProcVertexBuffer := ProcVertexBuffer t @ ProcVertexBuffer s,
              ProcIndexBuffer := ProcIndexBuffer t @ ProcIndexBuffer s,
              SectionLocalBox := foldl FBox_add (SectionLocalBox t) (map Pos (ProcVertexBuffer s))\<rparr>,
            Ar\<lparr>Offset := Offset Ar + length (wire_format s)\<rparr>)"
proof -
  have d': "drop (Offset Ar) (Bytes Ar) =
              bytes_of_word32 (Num (ProcVertexBuffer s)) @ box_record (SectionLocalBox s) @
              concat (map vertex_record (ProcVertexBuffer s)) @
              bytes_of_word32 (Num (ProcIndexBuffer s)) @
              concat (map bytes_of_word32 (ProcIndexBuffer s)) @ rest"
    using d by (simp add: wire_format_def)
  show ?thesis
    using DeserializeMesh_stream [OF ok d', of L t] sint_Num [OF nv] sint_Num [OF ni]
    by (simp add: length_wire_format foldl_AddVertex foldl_AddIndex)
qed

lemma build_snoc: "build s (ops @ [op]) = apply_op (build s ops) op"
  by (simp add: build_def)

lemma build_box_replay:
  "SectionLocalBox (build FProcMeshSection_new ops) =
     foldl FBox_add FBox_Init (map Pos (ProcVertexBuffer (build FProcMeshSection_new ops)))"
proof (induction ops rule: rev_induct)
  case Nil
  then show ?case
    by (simp add: build_def FProcMeshSection_new_def FBox_ForceInitToZero_def)
next
  case (snoc op ops)
  then show ?case
    by (cases op) (simp_all add: build_snoc AddVertex_def AddIndex_def)
qed

section \<open>The order of floats and the box\<close>

lemma float_le_refl: "\<not> float_is_nan a \<Longrightarrow> float_le a a"
  by (simp add: float_le_def)

lemma float_le_trans: "float_le a b \<Longrightarrow> float_le b c \<Longrightarrow> float_le a c"
  by (auto simp: float_le_def)

lemma float_le_total: "\<not> float_is_nan a \<Longrightarrow> \<not> float_is_nan b \<Longrightarrow> float_le a b \<or> float_le b a"
  by (auto simp: float_le_def)

lemma FMath_Min_cases: "FMath_Min a b = a \<or> FMath_Min a b = b"
  by (simp add: FMath_Min_def)

lemma FMath_Max_cases: "FMath_Max a b = a \<or> FMath_Max a b = b"
  by (simp add: FMath_Max_def)

lemma FMath_Min_le:
  assumes "\<not> float_is_nan a" "\<not> float_is_nan b"
  shows "float_le (FMath_Min a b) a" and "float_le (FMath_Min a b) b"
  using assms float_le_total [OF assms] by (auto simp: FMath_Min_def float_le_refl)

lemma FMath_Max_ge:
  assumes "\<not> float_is_nan a" "\<not> float_is_nan b"
  shows "float_le a (FMath_Max a b)" and "float_le b (FMath_Max a b)"
  using assms float_le_total [OF assms] by (auto simp: FMath_Max_def float_le_refl)

lemma foldl_FMath_Min_least:
  assumes "\<not> float_is_nan m" "\<forall>x\<in>set xs. \<not> float_is_nan x"
  shows "is_least (foldl FMath_Min m xs) (m # xs)"
  using assms
proof (induction xs arbitrary: m)
  case Nil
  then show ?case by (simp add: is_least_def float_le_refl)
next
  case (Cons x xs)
  let ?m = "FMath_Min m x"
  have nx: "\<not> float_is_nan x" using Cons.prems(2) by simp
  have nm: "\<not> float_is_nan ?m"
    using FMath_Min_cases [of m x] Cons.prems(1) nx by auto
  have ih: "is_least (foldl FMath_Min ?m xs) (?m # xs)"
    using Cons.IH [OF nm] Cons.prems(2) by simp
  have le: "float_le ?m m" "float_le ?m x"
    using FMath_Min_le [OF Cons.prems(1) nx] .
  from ih have r: "float_le (foldl FMath_Min ?m xs) ?m"
    by (simp add: is_least_def)
  show ?case
    using ih FMath_Min_cases [of m x] float_le_trans [OF r le(1)] float_le_trans [OF r le(2)]
    by (auto simp: is_least_def)
qed

lemma foldl_FMath_Max_greatest:
  assumes "\<not> float_is_nan m" "\<forall>x\<in>set xs. \<not> float_is_nan x"
  shows "is_greatest (foldl FMath_Max m xs) (m # xs)"
  using assms
proof (induction xs arbitrary: m)
  case Nil
  then show ?case by (simp add: is_greatest_def float_le_refl)
next
  case (Cons x xs)
  let ?m = "FMath_Max m x"
  have nx: "\<not> float_is_nan x" using Cons.prems(2) by simp
  have nm: "\<not> float_is_nan ?m"
    using FMath_Max_cases [of m x] Cons.prems(1) nx by auto
  have ih: "is_greatest (foldl FMath_Max ?m xs) (?m # xs)"
    using Cons.IH [OF nm] Cons.prems(2) by simp
  have le: "float_le m ?m" "float_le x ?m"
    using FMath_Max_ge [OF Cons.prems(1) nx] .
  from ih have r: "float_le ?m (foldl FMath_Max ?m xs)"
    by (simp add: is_greatest_def)
  show ?case
    using ih FMath_Max_cases [of m x] float_le_trans [OF le(1) r] float_le_trans [OF le(2) r]
    by (auto simp: is_greatest_def)
qed

lemma foldl_FBox_add_valid:
  "IsValid B \<Longrightarrow>
   foldl FBox_add B ps =
     \<lparr>Min_corner = \<lparr>X = foldl FMath_Min (X (Min_corner B)) (map X ps),
                    Y = foldl FMath_Min (Y (Min_corner B)) (map Y ps),
                    Z = foldl FMath_Min (Z (Min_corner B)) (map Z ps)\<rparr>,
      Max_corner = \<lparr>X = foldl FMath_Max (X (Max_corner B)) (map X ps),
                    Y = foldl FMath_Max (Y (Max_corner B)) (map Y ps),
                    Z = foldl FMath_Max (Z (Max_corner B)) (map Z ps)\<rparr>,
      IsValid = True\<rparr>"
proof (induction ps arbitrary: B)
  case Nil
  then show ?case by simp
next
  case (Cons p ps)
  have "IsValid (FBox_add B p)" by (simp add: FBox_add_def)
  from Cons.IH [OF this] Cons.prems show ?case
    by (simp add: FBox_add_def)
qed

lemma foldl_FBox_add_Init:
  "foldl FBox_add FBox_Init (p # ps) =
     \<lparr>Min_corner = \<lparr>X = foldl FMath_Min (X p) (map X ps),
                    Y = foldl FMath_Min (Y p) (map Y ps),
                    Z = foldl FMath_Min (Z p) (map Z ps)\<rparr>,
      Max_corner = \<lparr>X = foldl FMath_Max (X p) (map X ps),
                    Y = foldl FMath_Max (Y p) (map Y ps),
                    Z = foldl FMath_Max (Z p) (map Z ps)\<rparr>,
      IsValid = True\<rparr>"
proof -
  have "FBox_add FBox_Init p = \<lparr>Min_corner = p, Max_corner = p, IsValid = True\<rparr>"
    by (simp add: FBox_add_def FBox_Init_def)
  then show ?thesis
    using foldl_FBox_add_valid [of "\<lparr>Min_corner = p, Max_corner = p, IsValid = True\<rparr>" ps]
    by simp
qed

lemma replay_tight:
  assumes "vs \<noteq> []" "list_all no_nan_position vs"
  shows "tight_box (foldl FBox_add FBox_Init (map Pos vs)) vs"
proof -
  from assms(1) obtain v ws where vs: "vs = v # ws" by (cases vs) auto
  have nv: "\<not> float_is_nan (PositionX v)" "\<not> float_is_nan (PositionY v)" "\<not> float_is_nan (PositionZ v)"
    using assms(2) by (simp_all add: vs no_nan_position_def)
  have nx: "\<forall>x\<in>set (map PositionX ws). \<not> float_is_nan x"
    and ny: "\<forall>x\<in>set (map PositionY ws). \<not> float_is_nan x"
    and nz: "\<forall>x\<in>set (map PositionZ ws). \<not> float_is_nan x"
    using assms(2) by (auto simp: vs no_nan_position_def list_all_iff)
  have m: "map X (map Pos ws) = map PositionX ws" "map Y (map Pos ws) = map PositionY ws"
    "map Z (map Pos ws) = map PositionZ ws"
    by (simp_all add: Pos_def comp_def)
  have eq: "foldl FBox_add FBox_Init (map Pos (v # ws)) =
     \<lparr>Min_corner = \<lparr>X = foldl FMath_Min (PositionX v) (map PositionX ws),
                    Y = foldl FMath_Min (PositionY v) (map PositionY ws),
                    Z = foldl FMath_Min (PositionZ v) (map PositionZ ws)\<rparr>,
      Max_corner = \<lparr>X = foldl FMath_Max (PositionX v) (map PositionX ws),
                    Y = foldl FMath_Max (PositionY v) (map PositionY ws),
                    Z = foldl FMath_Max (PositionZ v) (map PositionZ ws)\<rparr>,
      IsValid = True\<rparr>"
    using foldl_FBox_add_Init [of "Pos v" "map Pos ws"]
    by (simp only: m list.map) (simp add: Pos_def)
  show ?thesis
    unfolding vs tight_box_def eq
    using foldl_FMath_Min_least [OF nv(1) nx] foldl_FMath_Min_least [OF nv(2) ny]
      foldl_FMath_Min_least [OF nv(3) nz]
      foldl_FMath_Max_greatest [OF nv(1) nx] foldl_FMath_Max_greatest [OF nv(2) ny]
      foldl_FMath_Max_greatest [OF nv(3) nz]
    by simp
qed


section \<open>The fast path on what was written\<close>

lemma words_of_bytes_word32: "words_of_bytes (bytes_of_word32 w @ bs) = w # words_of_bytes bs"
  by (simp add: bytes_of_word32_def word32_of_bytes_of_word32)

lemma words_of_bytes_single: "words_of_bytes (bytes_of_word32 w) = [w]"
  using words_of_bytes_word32 [of w "[]"] by simp

lemma words_of_bytes_concat: "words_of_bytes (concat (map bytes_of_word32 ws)) = ws"
  by (induction ws) (simp_all add: words_of_bytes_word32)

lemma words_of_bytes_vertex_record:
  "words_of_bytes (vertex_record v @ bs) =
     PositionX v # PositionY v # PositionZ v # NormalX v # NormalY v # NormalZ v # MatIdx v #
     words_of_bytes bs"
  by (simp add: vertex_record_def words_of_bytes_word32)

lemma vertices_of_words_concat:
  "vertices_of_words (words_of_bytes (concat (map vertex_record vs))) = vs"
  by (induction vs) (simp_all add: words_of_bytes_vertex_record)

lemma fast_read_at:
  assumes "drop (bytesRead D + k) (data D) = a @ rest" "length a = sz * n"
    and "bytesRead D + k \<le> length (data D)"
  shows "fast_read (D\<lparr>bytesRead := bytesRead D + k\<rparr>) sz n =
           Some (a, D\<lparr>bytesRead := bytesRead D + (k + sz * n)\<rparr>)"
    and "drop (bytesRead D + (k + sz * n)) (data D) = rest"
    and "bytesRead D + (k + sz * n) \<le> length (data D)"
proof -
  have "sz * n \<le> length (drop (bytesRead D + k) (data D))"
    using assms(1,2) by simp
  then have len: "bytesRead D + k + sz * n \<le> length (data D)"
    using assms(3) by simp
  have tk: "take (sz * n) (drop (bytesRead D + k) (data D)) = a"
    using assms(1,2) by simp
  show "fast_read (D\<lparr>bytesRead := bytesRead D + k\<rparr>) sz n =
           Some (a, D\<lparr>bytesRead := bytesRead D + (k + sz * n)\<rparr>)"
    using len tk by (simp add: fast_read_def Let_def add.assoc)
  show "drop (bytesRead D + (k + sz * n)) (data D) = rest"
    using drop_after [OF assms(1,2)] by (simp add: add.assoc)
  show "bytesRead D + (k + sz * n) \<le> length (data D)"
    using len by simp
qed

lemma readObj_at:
  assumes "drop (bytesRead D + k) (data D) = bytes_of_word32 w @ rest"
    and "bytesRead D + k \<le> length (data D)"
  shows "readObj (D\<lparr>bytesRead := bytesRead D + k\<rparr>) = Some (w, D\<lparr>bytesRead := bytesRead D + (k + 4)\<rparr>)"
    and "drop (bytesRead D + (k + 4)) (data D) = rest"
    and "bytesRead D + (k + 4) \<le> length (data D)"
  using fast_read_at [OF assms(1) _ assms(2), of 4 1]
  by (simp_all add: readObj_def read_words_def words_of_bytes_single)

lemma read_words3_at:
  assumes "drop (bytesRead D + k) (data D) =
             (bytes_of_word32 a @ bytes_of_word32 b @ bytes_of_word32 c) @ rest"
    and "bytesRead D + k \<le> length (data D)"
  shows "read_words (D\<lparr>bytesRead := bytesRead D + k\<rparr>) 3 =
           Some ([a, b, c], D\<lparr>bytesRead := bytesRead D + (k + 12)\<rparr>)"
    and "drop (bytesRead D + (k + 12)) (data D) = rest"
    and "bytesRead D + (k + 12) \<le> length (data D)"
  using fast_read_at [OF assms(1) _ assms(2), of 4 3]
  by (simp_all add: read_words_def words_of_bytes_word32 words_of_bytes_single)

lemma read_words_at:
  assumes "drop (bytesRead D + k) (data D) = concat (map bytes_of_word32 ws) @ rest"
    and "bytesRead D + k \<le> length (data D)"
  shows "read_words (D\<lparr>bytesRead := bytesRead D + k\<rparr>) (length ws) =
           Some (ws, D\<lparr>bytesRead := bytesRead D + (k + 4 * length ws)\<rparr>)"
  using fast_read_at [OF assms(1) _ assms(2), of 4 "length ws"]
  by (simp add: read_words_def words_of_bytes_concat)

lemma read_vertices_at:
  assumes "drop (bytesRead D + k) (data D) = concat (map vertex_record vs) @ rest"
    and "bytesRead D + k \<le> length (data D)"
  shows "read_vertices (D\<lparr>bytesRead := bytesRead D + k\<rparr>) (length vs) =
           Some (vs, D\<lparr>bytesRead := bytesRead D + (k + 28 * length vs)\<rparr>)"
    and "drop (bytesRead D + (k + 28 * length vs)) (data D) = rest"
    and "bytesRead D + (k + 28 * length vs) \<le> length (data D)"
  using fast_read_at [OF assms(1) _ assms(2), of 28 "length vs"]
  by (simp_all add: read_vertices_def vertices_of_words_concat)

lemma DeserializeMeshFast_wire_format:
  assumes d: "drop (bytesRead D) (data D) = wire_format s @ rest"
    and nv: "length (ProcVertexBuffer s) < 2 ^ 31"
    and ni: "length (ProcIndexBuffer s) < 2 ^ 31"
  shows "DeserializeMeshFast D t =
           Some (t\<lparr>ProcVertexBuffer := ProcVertexBuffer s,
                   ProcIndexBuffer := ProcIndexBuffer s,
                   SectionLocalBox := FBox_corners (Min_corner (SectionLocalBox s))
                                                   (Max_corner (SectionLocalBox s))\<rparr>,
                 D\<lparr>bytesRead := bytesRead D + length (wire_format s)\<rparr>)"
proof -
  let ?vs = "ProcVertexBuffer s" and ?is = "ProcIndexBuffer s" and ?B = "SectionLocalBox s"
  let ?r = "\<lambda>k. D\<lparr>bytesRead := bytesRead D + k\<rparr>"
  let ?tail = "bytes_of_word32 (Num ?is) @ concat (map bytes_of_word32 ?is) @ rest"
  have "length (drop (bytesRead D) (data D)) \<ge> 32"
    unfolding d by (simp add: length_wire_format)
  then have b0: "bytesRead D + 0 \<le> length (data D)"
    by simp
  have d0: "drop (bytesRead D + 0) (data D) =
      bytes_of_word32 (Num ?vs) @
      (bytes_of_word32 (X (Min_corner ?B)) @ bytes_of_word32 (Y (Min_corner ?B)) @
       bytes_of_word32 (Z (Min_corner ?B))) @
      (bytes_of_word32 (X (Max_corner ?B)) @ bytes_of_word32 (Y (Max_corner ?B)) @
       bytes_of_word32 (Z (Max_corner ?B))) @
      concat (map vertex_record ?vs) @ ?tail"
    using d by (simp add: wire_format_def box_record_def)
  note s1 = readObj_at [OF d0 b0]
  note s2 = read_words3_at [OF s1(2,3)]
  note s3 = read_words3_at [OF s2(2,3)]
  note s4 = read_vertices_at [OF s3(2,3)]
  note s5 = readObj_at [OF s4(2,3)]
  note s6 = read_words_at [OF s5(2,3)]
  have len: "length (wire_format s) = 28 + 28 * length ?vs + 4 + 4 * length ?is"
    by (simp add: length_wire_format)
  have e1: "readObj D = Some (Num ?vs, ?r 4)"
    using s1(1) by simp
  have e2: "read_words (?r 4) 3 =
      Some ([X (Min_corner ?B), Y (Min_corner ?B), Z (Min_corner ?B)], ?r 16)"
    using s2(1) by simp
  have e3: "read_words (?r 16) 3 =
      Some ([X (Max_corner ?B), Y (Max_corner ?B), Z (Max_corner ?B)], ?r 28)"
    using s3(1) by simp
  have e4: "read_vertices (?r 28) (length ?vs) = Some (?vs, ?r (28 + 28 * length ?vs))"
    using s4(1) by simp
  have e5: "readObj (?r (28 + 28 * length ?vs)) = Some (Num ?is, ?r (32 + 28 * length ?vs))"
    using s5(1) by (simp add: add.assoc)
  have e6: "read_words (?r (32 + 28 * length ?vs)) (length ?is) =
      Some (?is, ?r (32 + 28 * length ?vs + 4 * length ?is))"
    using s6 by (simp add: add.assoc)
  show ?thesis
    unfolding DeserializeMeshFast_def
    by (simp add: e1 e2 e3 e4 e5 e6 sint_Num [OF nv] sint_Num [OF ni] len FBox_corners_def)
qed

lemma ProcVertexBuffer_build:
  "ProcVertexBuffer (build s ops) = ProcVertexBuffer s @ inserted_vertices ops"
proof (induction ops arbitrary: s)
  case Nil
  then show ?case by (simp add: build_def)
next
  case (Cons op ops)
  then show ?case
    by (cases op) (simp_all add: build_def AddVertex_def AddIndex_def)
qed

lemma Reset_eq_new: "Reset s = FProcMeshSection_new"
  by (simp add: Reset_def FProcMeshSection_new_def FBox_ForceInitToZero_def)

lemma decode_safe_wire_format:
  assumes "length (ProcVertexBuffer s) < 2 ^ 31" and "length (ProcIndexBuffer s) < 2 ^ 31"
  shows "decode_safe L (SerializeMesh s []) =
           \<lparr>ProcVertexBuffer = ProcVertexBuffer s, ProcIndexBuffer = ProcIndexBuffer s,
            SectionLocalBox = foldl FBox_add FBox_Init (map Pos (ProcVertexBuffer s))\<rparr>"
proof -
  have d: "drop (Offset (FMemoryReader_new (SerializeMesh s [])))
          (Bytes (FMemoryReader_new (SerializeMesh s []))) = wire_format s @ []"
    by (simp add: FMemoryReader_new_def SerializeMesh_eq)
  from DeserializeMesh_wire_format [OF _ d assms, of L FProcMeshSection_new]
  show ?thesis
    by (simp add: decode_safe_def FMemoryReader_new_def FProcMeshSection_new_def
        FBox_ForceInitToZero_def)
qed

lemma decode_fast_wire_format:
  assumes "length (ProcVertexBuffer s) < 2 ^ 31" and "length (ProcIndexBuffer s) < 2 ^ 31"
  shows "decode_fast (SerializeMesh s []) =
           Some \<lparr>ProcVertexBuffer = ProcVertexBuffer s, ProcIndexBuffer = ProcIndexBuffer s,
            SectionLocalBox = FBox_corners (Min_corner (SectionLocalBox s))
                                           (Max_corner (SectionLocalBox s))\<rparr>"
proof -
  have d: "drop (bytesRead (FastUnsafeDeserializer_new (SerializeMesh s [])))
          (data (FastUnsafeDeserializer_new (SerializeMesh s []))) = wire_format s @ []"
    by (simp add: FastUnsafeDeserializer_new_def SerializeMesh_eq)
  from DeserializeMeshFast_wire_format [OF d assms, of FProcMeshSection_new]
  show ?thesis
    by (simp add: decode_fast_def FProcMeshSection_new_def)
qed

section \<open>Reading a stream that ends early\<close>

lemma length_four: "length xs = 4 \<Longrightarrow> \<exists>a b c d. xs = [a, b, c, d]"
  by (auto simp: numeral_eq_Suc length_Suc_conv)

lemma read32_cases:
  "read32 Ar old = (old, Ar) \<and> ArIsError Ar
   \<or> read32 Ar old = (old, Ar\<lparr>ArIsError := True\<rparr>) \<and> \<not> ArIsError Ar
       \<and> length (Bytes Ar) < Offset Ar + 4
   \<or> (\<exists>w. read32 Ar old = (w, Ar\<lparr>Offset := Offset Ar + 4\<rparr>)) \<and> \<not> ArIsError Ar
       \<and> Offset Ar + 4 \<le> length (Bytes Ar)"
proof -
  consider (e) "ArIsError Ar" | (s) "\<not> ArIsError Ar" "length (Bytes Ar) < Offset Ar + 4"
    | (g) "\<not> ArIsError Ar" "Offset Ar + 4 \<le> length (Bytes Ar)"
    by linarith
  then show ?thesis
  proof cases
    case e
    then show ?thesis by (simp add: read32_def Serialize_def)
  next
    case s
    then show ?thesis by (simp add: read32_def Serialize_def)
  next
    case g
    then have "length (take 4 (drop (Offset Ar) (Bytes Ar))) = 4"
      by simp
    from length_four [OF this]
    obtain b0 b1 b2 b3 where "take 4 (drop (Offset Ar) (Bytes Ar)) = [b0, b1, b2, b3]"
      by blast
    with g show ?thesis by (simp add: read32_def Serialize_def)
  qed
qed

lemma read32_no_error:
  assumes "\<not> ArIsError (snd (read32 Ar old))"
  shows "\<not> ArIsError Ar" and "snd (read32 Ar old) = Ar\<lparr>Offset := Offset Ar + 4\<rparr>"
    and "Offset Ar + 4 \<le> length (Bytes Ar)"
  using assms read32_cases [of Ar old] by auto

lemma read32_inv:
  assumes "Offset Ar \<le> length (Bytes Ar)"
  shows "Offset (snd (read32 Ar old)) \<le> length (Bytes (snd (read32 Ar old)))"
  using assms read32_cases [of Ar old] by auto

lemma read32_Bytes: "Bytes (snd (read32 Ar old)) = Bytes Ar"
  using read32_cases [of Ar old] by auto

lemma read_vertex_snd:
  "snd (read_vertex junk Ar) =
     snd (read32 (snd (read32 (snd (read32 (snd (read32 (snd (read32 (snd (read32
       (snd (read32 Ar (PositionX junk))) (PositionY junk))) (PositionZ junk)))
       (NormalX junk))) (NormalY junk))) (NormalZ junk))) (MatIdx junk))"
  by (simp add: read_vertex_def split_beta)

lemma read_vertex_no_error:
  assumes "\<not> ArIsError (snd (read_vertex junk Ar))"
  shows "\<not> ArIsError Ar" and "snd (read_vertex junk Ar) = Ar\<lparr>Offset := Offset Ar + 28\<rparr>"
proof -
  let ?a1 = "snd (read32 Ar (PositionX junk))"
  let ?a2 = "snd (read32 ?a1 (PositionY junk))"
  let ?a3 = "snd (read32 ?a2 (PositionZ junk))"
  let ?a4 = "snd (read32 ?a3 (NormalX junk))"
  let ?a5 = "snd (read32 ?a4 (NormalY junk))"
  let ?a6 = "snd (read32 ?a5 (NormalZ junk))"
  let ?a7 = "snd (read32 ?a6 (MatIdx junk))"
  have e: "snd (read_vertex junk Ar) = ?a7" by (rule read_vertex_snd)
  with assms have n7: "\<not> ArIsError ?a7" by simp
  note s7 = read32_no_error [OF n7]
  note s6 = read32_no_error [OF s7(1)]
  note s5 = read32_no_error [OF s6(1)]
  note s4 = read32_no_error [OF s5(1)]
  note s3 = read32_no_error [OF s4(1)]
  note s2 = read32_no_error [OF s3(1)]
  note s1 = read32_no_error [OF s2(1)]
  show "\<not> ArIsError Ar" by (rule s1(1))
  have a1: "?a1 = Ar\<lparr>Offset := Offset Ar + 4\<rparr>" using s1(2) .
  have a2: "?a2 = Ar\<lparr>Offset := Offset Ar + 8\<rparr>" using s2(2) a1 by simp
  have a3: "?a3 = Ar\<lparr>Offset := Offset Ar + 12\<rparr>" using s3(2) a2 by simp
  have a4: "?a4 = Ar\<lparr>Offset := Offset Ar + 16\<rparr>" using s4(2) a3 by simp
  have a5: "?a5 = Ar\<lparr>Offset := Offset Ar + 20\<rparr>" using s5(2) a4 by simp
  have a6: "?a6 = Ar\<lparr>Offset := Offset Ar + 24\<rparr>" using s6(2) a5 by simp
  have "?a7 = Ar\<lparr>Offset := Offset Ar + 28\<rparr>" using s7(2) a6 by simp
  then show "snd (read_vertex junk Ar) = Ar\<lparr>Offset := Offset Ar + 28\<rparr>"
    using e by simp
qed

lemma read_vertex_inv:
  assumes "Offset Ar \<le> length (Bytes Ar)"
  shows "Offset (snd (read_vertex junk Ar)) \<le> length (Bytes (snd (read_vertex junk Ar)))"
  unfolding read_vertex_snd
  by (intro read32_inv assms)

lemma vertex_loop_no_error:
  "\<not> ArIsError (snd (vertex_loop junk Idx VertexNum (s, Ar))) \<Longrightarrow>
   \<not> ArIsError Ar \<and>
   snd (vertex_loop junk Idx VertexNum (s, Ar)) = Ar\<lparr>Offset := Offset Ar + 28 * nat (VertexNum - Idx)\<rparr>"
proof (induction junk Idx VertexNum "(s, Ar)" arbitrary: s Ar rule: vertex_loop.induct)
  case (1 junk Idx VertexNum s BinaryData)
  show ?case
  proof (cases "Idx < VertexNum")
    case False
    then show ?thesis
      using "1.prems" by (simp add: vertex_loop.simps [of junk Idx])
  next
    case True
    obtain v Ar' where rv: "read_vertex junk BinaryData = (v, Ar')"
      by (cases "read_vertex junk BinaryData")
    have step: "vertex_loop junk Idx VertexNum (s, BinaryData) =
        vertex_loop v (Idx + 1) VertexNum (AddVertex s v, Ar')"
      using True rv by (simp add: vertex_loop.simps [of junk Idx])
    with "1.prems" have "\<not> ArIsError (snd (vertex_loop v (Idx + 1) VertexNum (AddVertex s v, Ar')))"
      by simp
    from "1.hyps" [OF True rv [symmetric] refl this]
    have ih: "\<not> ArIsError Ar'"
      "snd (vertex_loop v (Idx + 1) VertexNum (AddVertex s v, Ar')) =
        Ar'\<lparr>Offset := Offset Ar' + 28 * nat (VertexNum - (Idx + 1))\<rparr>"
      by simp_all
    have "\<not> ArIsError (snd (read_vertex junk BinaryData))"
      using ih(1) rv by simp
    note rvn = read_vertex_no_error [OF this]
    have "Ar' = BinaryData\<lparr>Offset := Offset BinaryData + 28\<rparr>"
      using rvn(2) rv by simp
    moreover have "28 + 28 * nat (VertexNum - (Idx + 1)) = 28 * nat (VertexNum - Idx)"
      using True by (simp add: nat_diff_distrib)
    ultimately show ?thesis
      using rvn(1) ih(2) step by (simp add: add.assoc)
  qed
qed


lemma index_loop_no_error:
  "\<not> ArIsError (snd (index_loop junk Idx IndexNum (s, Ar))) \<Longrightarrow>
   \<not> ArIsError Ar \<and>
   snd (index_loop junk Idx IndexNum (s, Ar)) = Ar\<lparr>Offset := Offset Ar + 4 * nat (IndexNum - Idx)\<rparr>"
proof (induction junk Idx IndexNum "(s, Ar)" arbitrary: s Ar rule: index_loop.induct)
  case (1 junk Idx IndexNum s BinaryData)
  show ?case
  proof (cases "Idx < IndexNum")
    case False
    then show ?thesis
      using "1.prems" by (simp add: index_loop.simps [of junk Idx])
  next
    case True
    obtain w Ar' where rv: "read32 BinaryData junk = (w, Ar')"
      by (cases "read32 BinaryData junk")
    have step: "index_loop junk Idx IndexNum (s, BinaryData) =
        index_loop w (Idx + 1) IndexNum (AddIndex s w, Ar')"
      using True rv by (simp add: index_loop.simps [of junk Idx])
    with "1.prems" have "\<not> ArIsError (snd (index_loop w (Idx + 1) IndexNum (AddIndex s w, Ar')))"
      by simp
    from "1.hyps" [OF True rv [symmetric] refl this]
    have ih: "\<not> ArIsError Ar'"
      "snd (index_loop w (Idx + 1) IndexNum (AddIndex s w, Ar')) =
        Ar'\<lparr>Offset := Offset Ar' + 4 * nat (IndexNum - (Idx + 1))\<rparr>"
      by simp_all
    have "\<not> ArIsError (snd (read32 BinaryData junk))"
      using ih(1) rv by simp
    note rvn = read32_no_error [OF this]
    have "Ar' = BinaryData\<lparr>Offset := Offset BinaryData + 4\<rparr>"
      using rvn(2) rv by simp
    moreover have "4 + 4 * nat (IndexNum - (Idx + 1)) = 4 * nat (IndexNum - Idx)"
      using True by (simp add: nat_diff_distrib)
    ultimately show ?thesis
      using rvn(1) ih(2) step by (simp add: add.assoc)
  qed
qed

lemma vertex_loop_inv:
  "Offset Ar \<le> length (Bytes Ar) \<Longrightarrow>
   Offset (snd (vertex_loop junk Idx VertexNum (s, Ar)))
     \<le> length (Bytes (snd (vertex_loop junk Idx VertexNum (s, Ar))))"
proof (induction junk Idx VertexNum "(s, Ar)" arbitrary: s Ar rule: vertex_loop.induct)
  case (1 junk Idx VertexNum s BinaryData)
  show ?case
  proof (cases "Idx < VertexNum")
    case False
    then show ?thesis
      using "1.prems" by (simp add: vertex_loop.simps [of junk Idx])
  next
    case True
    obtain v Ar' where rv: "read_vertex junk BinaryData = (v, Ar')"
      by (cases "read_vertex junk BinaryData")
    have step: "vertex_loop junk Idx VertexNum (s, BinaryData) =
        vertex_loop v (Idx + 1) VertexNum (AddVertex s v, Ar')"
      using True rv by (simp add: vertex_loop.simps [of junk Idx])
    have "Offset Ar' \<le> length (Bytes Ar')"
      using read_vertex_inv [OF "1.prems", of junk] rv by simp
    from "1.hyps" [OF True rv [symmetric] refl this] show ?thesis
      using step by simp
  qed
qed

lemma index_loop_inv:
  "Offset Ar \<le> length (Bytes Ar) \<Longrightarrow>
   Offset (snd (index_loop junk Idx IndexNum (s, Ar)))
     \<le> length (Bytes (snd (index_loop junk Idx IndexNum (s, Ar))))"
proof (induction junk Idx IndexNum "(s, Ar)" arbitrary: s Ar rule: index_loop.induct)
  case (1 junk Idx IndexNum s BinaryData)
  show ?case
  proof (cases "Idx < IndexNum")
    case False
    then show ?thesis
      using "1.prems" by (simp add: index_loop.simps [of junk Idx])
  next
    case True
    obtain w Ar' where rv: "read32 BinaryData junk = (w, Ar')"
      by (cases "read32 BinaryData junk")
    have step: "index_loop junk Idx IndexNum (s, BinaryData) =
        index_loop w (Idx + 1) IndexNum (AddIndex s w, Ar')"
      using True rv by (simp add: index_loop.simps [of junk Idx])
    have "Offset Ar' \<le> length (Bytes Ar')"
      using read32_inv [OF "1.prems", of junk] rv by simp
    from "1.hyps" [OF True rv [symmetric] refl this] show ?thesis
      using step by simp
  qed
qed

lemma vertex_loop_count:
  "length (ProcVertexBuffer (fst (vertex_loop junk Idx VertexNum (s, Ar)))) =
     length (ProcVertexBuffer s) + nat (VertexNum - Idx)"
proof (induction junk Idx VertexNum "(s, Ar)" arbitrary: s Ar rule: vertex_loop.induct)
  case (1 junk Idx VertexNum s BinaryData)
  show ?case
  proof (cases "Idx < VertexNum")
    case False
    then show ?thesis
      by (simp add: vertex_loop.simps [of junk Idx])
  next
    case True
    obtain v Ar' where rv: "read_vertex junk BinaryData = (v, Ar')"
      by (cases "read_vertex junk BinaryData")
    have step: "vertex_loop junk Idx VertexNum (s, BinaryData) =
        vertex_loop v (Idx + 1) VertexNum (AddVertex s v, Ar')"
      using True rv by (simp add: vertex_loop.simps [of junk Idx])
    have "Suc (nat (VertexNum - (Idx + 1))) = nat (VertexNum - Idx)"
      using True by (simp add: nat_diff_distrib)
    with "1.hyps" [OF True rv [symmetric] refl] show ?thesis
      using step by (simp add: AddVertex_def)
  qed
qed

lemma index_loop_vertices:
  "ProcVertexBuffer (fst (index_loop junk Idx IndexNum (s, Ar))) = ProcVertexBuffer s"
proof (induction junk Idx IndexNum "(s, Ar)" arbitrary: s Ar rule: index_loop.induct)
  case (1 junk Idx IndexNum s BinaryData)
  show ?case
  proof (cases "Idx < IndexNum")
    case False
    then show ?thesis
      by (simp add: index_loop.simps [of junk Idx])
  next
    case True
    obtain w Ar' where rv: "read32 BinaryData junk = (w, Ar')"
      by (cases "read32 BinaryData junk")
    have step: "index_loop junk Idx IndexNum (s, BinaryData) =
        index_loop w (Idx + 1) IndexNum (AddIndex s w, Ar')"
      using True rv by (simp add: index_loop.simps [of junk Idx])
    from "1.hyps" [OF True rv [symmetric] refl] show ?thesis
      using step by (simp add: AddIndex_def)
  qed
qed

lemma DeserializeMesh_steps:
  "DeserializeMesh L Ar t =
     (let r1 = read32 Ar (VertexNum_init L);
          r2 = read32 (snd r1) 0; r3 = read32 (snd r2) 0; r4 = read32 (snd r3) 0;
          r5 = read32 (snd r4) 0; r6 = read32 (snd r5) 0; r7 = read32 (snd r6) 0;
          vl = vertex_loop (Vertex_init L) 0 (sint (fst r1)) (t, snd r7);
          r8 = read32 (snd vl) (IndexNum_init L)
      in index_loop (Index_init L) 0 (sint (fst r8)) (fst vl, snd r8))"
  by (simp add: DeserializeMesh_def split_beta Let_def)

lemma DeserializeMesh_count:
  "length (ProcVertexBuffer (fst (DeserializeMesh L Ar t))) =
     length (ProcVertexBuffer t) + nat (sint (fst (read32 Ar (VertexNum_init L))))"
  unfolding DeserializeMesh_steps Let_def
  using index_loop_vertices [where s = "fst (vertex_loop (Vertex_init L) 0
          (sint (fst (read32 Ar (VertexNum_init L))))
          (t, snd (read32 (snd (read32 (snd (read32 (snd (read32 (snd (read32 (snd (read32
            (snd (read32 Ar (VertexNum_init L))) 0)) 0)) 0)) 0)) 0)) 0)))"]
  by (simp add: vertex_loop_count)


lemma read32_prefix:
  assumes "\<not> ArIsError Ar" and "Bytes Ar = take n (pre @ bytes_of_word32 w @ post)"
    and "Offset Ar = length pre" and "Offset Ar + 4 \<le> length (Bytes Ar)"
  shows "fst (read32 Ar old) = w"
proof -
  have n: "length pre + 4 \<le> n"
    using assms(2,3,4) by simp
  have "drop (Offset Ar) (Bytes Ar) = bytes_of_word32 w @ take (n - length pre - 4) post"
    using n by (simp add: assms(2,3) drop_take)
  from read32_ok [OF assms(1) this] show ?thesis by simp
qed

lemma truncated_sets_error:
  assumes nv: "length (ProcVertexBuffer s) < 2 ^ 31"
    and ni: "length (ProcIndexBuffer s) < 2 ^ 31"
    and n: "n < length (wire_format s)"
  shows "ArIsError (snd (DeserializeMesh L (FMemoryReader_new (take n (wire_format s))) t))"
proof (rule ccontr)
  let ?vs = "ProcVertexBuffer s" and ?is = "ProcIndexBuffer s"
  let ?Ar = "FMemoryReader_new (take n (wire_format s))"
  define r1 where "r1 = read32 ?Ar (VertexNum_init L)"
  define r2 where "r2 = read32 (snd r1) 0"
  define r3 where "r3 = read32 (snd r2) 0"
  define r4 where "r4 = read32 (snd r3) 0"
  define r5 where "r5 = read32 (snd r4) 0"
  define r6 where "r6 = read32 (snd r5) 0"
  define r7 where "r7 = read32 (snd r6) 0"
  define vl where "vl = vertex_loop (Vertex_init L) 0 (sint (fst r1)) (t, snd r7)"
  define r8 where "r8 = read32 (snd vl) (IndexNum_init L)"
  define fin where "fin = index_loop (Index_init L) 0 (sint (fst r8)) (fst vl, snd r8)"
  have D: "DeserializeMesh L ?Ar t = fin"
    by (simp add: DeserializeMesh_steps Let_def fin_def r8_def vl_def r7_def r6_def r5_def
        r4_def r3_def r2_def r1_def)
  assume "\<not> ArIsError (snd (DeserializeMesh L ?Ar t))"
  then have "\<not> ArIsError (snd (index_loop (Index_init L) 0 (sint (fst r8)) (fst vl, snd r8)))"
    by (simp add: D fin_def)
  from index_loop_no_error [OF this]
  have i: "\<not> ArIsError (snd r8)"
    "snd fin = (snd r8)\<lparr>Offset := Offset (snd r8) + 4 * nat (sint (fst r8))\<rparr>"
    by (simp_all add: fin_def)
  note e8 = read32_no_error [OF i(1) [unfolded r8_def], folded r8_def]
  have "\<not> ArIsError (snd (vertex_loop (Vertex_init L) 0 (sint (fst r1)) (t, snd r7)))"
    using e8(1) by (simp add: vl_def)
  from vertex_loop_no_error [OF this]
  have v: "\<not> ArIsError (snd r7)"
    "snd vl = (snd r7)\<lparr>Offset := Offset (snd r7) + 28 * nat (sint (fst r1))\<rparr>"
    by (simp_all add: vl_def)
  note e7 = read32_no_error [OF v(1) [unfolded r7_def], folded r7_def]
  note e6 = read32_no_error [OF e7(1) [unfolded r6_def], folded r6_def]
  note e5 = read32_no_error [OF e6(1) [unfolded r5_def], folded r5_def]
  note e4 = read32_no_error [OF e5(1) [unfolded r4_def], folded r4_def]
  note e3 = read32_no_error [OF e4(1) [unfolded r3_def], folded r3_def]
  note e2 = read32_no_error [OF e3(1) [unfolded r2_def], folded r2_def]
  note e1 = read32_no_error [OF e2(1) [unfolded r1_def], folded r1_def]
  have a1: "snd r1 = ?Ar\<lparr>Offset := 4\<rparr>"
    using e1(2) by (simp add: FMemoryReader_new_def)
  have a2: "snd r2 = ?Ar\<lparr>Offset := 8\<rparr>" using e2(2) a1 by simp
  have a3: "snd r3 = ?Ar\<lparr>Offset := 12\<rparr>" using e3(2) a2 by simp
  have a4: "snd r4 = ?Ar\<lparr>Offset := 16\<rparr>" using e4(2) a3 by simp
  have a5: "snd r5 = ?Ar\<lparr>Offset := 20\<rparr>" using e5(2) a4 by simp
  have a6: "snd r6 = ?Ar\<lparr>Offset := 24\<rparr>" using e6(2) a5 by simp
  have a7: "snd r7 = ?Ar\<lparr>Offset := 28\<rparr>" using e7(2) a6 by simp
  have w1: "fst r1 = Num ?vs"
    unfolding r1_def
  proof (rule read32_prefix [where n = n and pre = "[]"])
    show "Bytes ?Ar = take n ([] @ bytes_of_word32 (Num ?vs) @
        (box_record (SectionLocalBox s) @ concat (map vertex_record ?vs) @
         bytes_of_word32 (Num ?is) @ concat (map bytes_of_word32 ?is)))"
      by (simp add: FMemoryReader_new_def wire_format_def)
  qed (use e1 in \<open>simp_all add: FMemoryReader_new_def\<close>)
  have av: "snd vl = ?Ar\<lparr>Offset := 28 + 28 * length ?vs\<rparr>"
    using v(2) a7 w1 sint_Num [OF nv] by simp
  have w8: "fst r8 = Num ?is"
    unfolding r8_def
  proof (rule read32_prefix [where n = n and
        pre = "bytes_of_word32 (Num ?vs) @ box_record (SectionLocalBox s) @
               concat (map vertex_record ?vs)"
        and post = "concat (map bytes_of_word32 ?is)"])
    show "\<not> ArIsError (snd vl)" by (rule e8(1))
    show "Bytes (snd vl) = take n ((bytes_of_word32 (Num ?vs) @ box_record (SectionLocalBox s) @
               concat (map vertex_record ?vs)) @ bytes_of_word32 (Num ?is) @
               concat (map bytes_of_word32 ?is))"
      by (simp add: av FMemoryReader_new_def wire_format_def)
    show "Offset (snd vl) = length (bytes_of_word32 (Num ?vs) @ box_record (SectionLocalBox s) @
               concat (map vertex_record ?vs))"
      by (simp add: av)
    show "Offset (snd vl) + 4 \<le> length (Bytes (snd vl))" by (rule e8(3))
  qed
  have a8: "snd r8 = ?Ar\<lparr>Offset := 32 + 28 * length ?vs\<rparr>"
    using e8(2) av by simp
  have af: "snd fin = ?Ar\<lparr>Offset := 32 + 28 * length ?vs + 4 * length ?is\<rparr>"
    using i(2) a8 w8 sint_Num [OF ni] by simp
  have "Offset (snd r8) \<le> length (Bytes (snd r8))"
    using e8(3) by (simp add: a8 av)
  from index_loop_inv [OF this, of "Index_init L" 0 "sint (fst r8)" "fst vl"]
  have "Offset (snd fin) \<le> length (Bytes (snd fin))"
    by (simp add: fin_def)
  then have "32 + 28 * length ?vs + 4 * length ?is \<le> n"
    using n by (simp add: af FMemoryReader_new_def)
  then show False
    using n by (simp add: length_wire_format)
qed

section \<open>Claims\<close>

text \<open>
  C1. Round trip. A section built from a new one by any sequence of \<^verbatim>\<open>AddVertex\<close>
  calls and index appends (its two arrays within the range of \<^verbatim>\<open>int32\<close>, as
  \<^verbatim>\<open>TArray\<close> keeps them) is the result of \<^verbatim>\<open>DeserializeMesh\<close> on the bytes of
  \<^verbatim>\<open>SerializeMesh\<close> into a new section: the same vertex buffer, index buffer and box,
  every scalar bit for bit. The reader ends at the end of the stream, without error.
\<close>

theorem roundtrip:
  assumes "s = build FProcMeshSection_new ops"
    and "length (ProcVertexBuffer s) < 2 ^ 31" and "length (ProcIndexBuffer s) < 2 ^ 31"
  shows "DeserializeMesh L (FMemoryReader_new (SerializeMesh s [])) FProcMeshSection_new =
           (s, \<lparr>Bytes = SerializeMesh s [], Offset = length (SerializeMesh s []),
                ArIsError = False\<rparr>)"
proof -
  have d: "drop (Offset (FMemoryReader_new (SerializeMesh s [])))
          (Bytes (FMemoryReader_new (SerializeMesh s []))) = wire_format s @ []"
    by (simp add: FMemoryReader_new_def SerializeMesh_eq)
  have box: "SectionLocalBox s = foldl FBox_add FBox_Init (map Pos (ProcVertexBuffer s))"
    using build_box_replay [of ops] assms(1) by simp
  from DeserializeMesh_wire_format [OF _ d assms(2,3), of L FProcMeshSection_new]
  show ?thesis
    using box
    by (simp add: FMemoryReader_new_def FProcMeshSection_new_def FBox_ForceInitToZero_def
        SerializeMesh_eq)
qed

theorem roundtrip_witness:
  "length (ProcVertexBuffer (build FProcMeshSection_new example_ops)) < 2 ^ 31
   \<and> length (ProcIndexBuffer (build FProcMeshSection_new example_ops)) < 2 ^ 31
   \<and> fst (DeserializeMesh zero_locals
        (FMemoryReader_new (SerializeMesh (build FProcMeshSection_new example_ops) []))
        FProcMeshSection_new) = build FProcMeshSection_new example_ops"
proof -
  have b: "length (ProcVertexBuffer (build FProcMeshSection_new example_ops)) < 2 ^ 31"
    "length (ProcIndexBuffer (build FProcMeshSection_new example_ops)) < 2 ^ 31"
    by (simp_all add: build_def example_ops_def FProcMeshSection_new_def AddVertex_def AddIndex_def)
  show ?thesis
    using b roundtrip [OF refl b, of zero_locals]
    by simp
qed



text \<open>
  C3, as the specification states it: on a stream that ends early the safe decode
  fails with \<open>TruncatedInput\<close> and leaves no partly filled section. The code returns
  nothing and checks nothing. On the stream of a section of two vertices cut before the
  material index of the second, \<^verbatim>\<open>DeserializeMesh\<close> still calls \<^verbatim>\<open>AddVertex\<close> twice: the
  section ends with both vertices, the second with the material index 1 that the pass
  before left in the local (the stream gave 2 to it, beyond the cut), and, the locals
  being zero at the start, with no index; the only trace of the cut is the reader's
  error flag.
\<close>

theorem truncated_counterexample:
  "length truncated_stream = 80
   \<and> length (SerializeMesh (build FProcMeshSection_new example_ops) []) = 96
   \<and> DeserializeMesh zero_locals (FMemoryReader_new truncated_stream) FProcMeshSection_new =
       (\<lparr>ProcVertexBuffer = [vertex_at 0x3F800000 0 0 1, vertex_at 0xBF800000 0x40A00000 0 1],
         ProcIndexBuffer = [],
         SectionLocalBox = \<lparr>Min_corner = \<lparr>X = 0xBF800000, Y = 0, Z = 0\<rparr>,
                             Max_corner = \<lparr>X = 0x3F800000, Y = 0x40A00000, Z = 0\<rparr>,
                             IsValid = True\<rparr>\<rparr>,
        \<lparr>Bytes = truncated_stream, Offset = 80, ArIsError = True\<rparr>)"
  by code_simp

text \<open>
  C3, amended. On a stream that \<^verbatim>\<open>SerializeMesh\<close> wrote and that was cut short,
  \<^verbatim>\<open>DeserializeMesh\<close> raises no error of its own and does not stop: the reader's error
  flag is set when it returns; every read that finds the reader in error, or fewer
  than four bytes left, gives back what its destination held and leaves the flag set;
  and, once the four bytes of the vertex count are there, the decode has appended as
  many vertex records as the count says, those beyond the cut made of what the locals
  held.
\<close>

theorem truncated_sets_flag_and_goes_on:
  assumes "length (ProcVertexBuffer s) < 2 ^ 31" and "length (ProcIndexBuffer s) < 2 ^ 31"
    and "n < length (SerializeMesh s [])"
  shows "ArIsError (snd (DeserializeMesh L (FMemoryReader_new (take n (SerializeMesh s []))) t))
       \<and> (4 \<le> n \<longrightarrow>
            length (ProcVertexBuffer
              (fst (DeserializeMesh L (FMemoryReader_new (take n (SerializeMesh s []))) t))) =
            length (ProcVertexBuffer t) + length (ProcVertexBuffer s))
       \<and> (ArIsError Ar \<or> length (Bytes Ar) < Offset Ar + 4 \<longrightarrow>
            fst (read32 Ar old) = old \<and> ArIsError (snd (read32 Ar old)))"
proof -
  have n: "n < length (wire_format s)"
    using assms(3) by (simp add: SerializeMesh_eq)
  have unchanged: "ArIsError Ar \<or> length (Bytes Ar) < Offset Ar + 4 \<longrightarrow>
            fst (read32 Ar old) = old \<and> ArIsError (snd (read32 Ar old))"
    using read32_cases [of Ar old] by auto
  have flag: "ArIsError (snd (DeserializeMesh L (FMemoryReader_new (take n (wire_format s))) t))"
    using truncated_sets_error [OF assms(1,2) n] .
  have count: "length (ProcVertexBuffer
              (fst (DeserializeMesh L (FMemoryReader_new (take n (wire_format s))) t))) =
            length (ProcVertexBuffer t) + length (ProcVertexBuffer s)" if "4 \<le> n"
  proof -
    let ?Ar = "FMemoryReader_new (take n (wire_format s))"
    have "fst (read32 ?Ar (VertexNum_init L)) = Num (ProcVertexBuffer s)"
    proof (rule read32_prefix [where n = n and pre = "[]"])
      show "Bytes ?Ar = take n ([] @ bytes_of_word32 (Num (ProcVertexBuffer s)) @
          (box_record (SectionLocalBox s) @ concat (map vertex_record (ProcVertexBuffer s)) @
           bytes_of_word32 (Num (ProcIndexBuffer s)) @
           concat (map bytes_of_word32 (ProcIndexBuffer s))))"
        by (simp add: FMemoryReader_new_def wire_format_def)
      show "Offset ?Ar + 4 \<le> length (Bytes ?Ar)"
        using that n by (simp add: FMemoryReader_new_def)
    qed (simp_all add: FMemoryReader_new_def)
    then show ?thesis
      using DeserializeMesh_count [of L ?Ar t] sint_Num [OF assms(1)] by simp
  qed
  show ?thesis
    using flag count unchanged by (simp add: SerializeMesh_eq)
qed

theorem truncated_sets_flag_and_goes_on_witness:
  "length (ProcVertexBuffer (build FProcMeshSection_new example_ops)) < 2 ^ 31
   \<and> length (ProcIndexBuffer (build FProcMeshSection_new example_ops)) < 2 ^ 31
   \<and> 80 < length (SerializeMesh (build FProcMeshSection_new example_ops) [])
   \<and> (4::nat) \<le> 80
   \<and> length (Bytes \<lparr>Bytes = truncated_stream, Offset = 80, ArIsError = False\<rparr>)
        < Offset \<lparr>Bytes = truncated_stream, Offset = 80, ArIsError = False\<rparr> + 4
   \<and> ArIsError (snd (DeserializeMesh zero_locals (FMemoryReader_new
        (take 80 (SerializeMesh (build FProcMeshSection_new example_ops) []))) FProcMeshSection_new))
   \<and> length (ProcVertexBuffer (fst (DeserializeMesh zero_locals (FMemoryReader_new
        (take 80 (SerializeMesh (build FProcMeshSection_new example_ops) []))) FProcMeshSection_new))) = 2
   \<and> fst (read32 \<lparr>Bytes = truncated_stream, Offset = 80, ArIsError = False\<rparr> 1) = 1
   \<and> ArIsError (snd (read32 \<lparr>Bytes = truncated_stream, Offset = 80, ArIsError = False\<rparr> 1))"
proof -
  have v: "ProcVertexBuffer (build FProcMeshSection_new example_ops) =
      [vertex_at 0x3F800000 0 0 1, vertex_at 0xBF800000 0x40A00000 0 2]"
    "ProcIndexBuffer (build FProcMeshSection_new example_ops) = [0, 1]"
    by (simp_all add: build_def example_ops_def FProcMeshSection_new_def AddVertex_def AddIndex_def)
  have a: "length (ProcVertexBuffer (build FProcMeshSection_new example_ops)) < 2 ^ 31"
    "length (ProcIndexBuffer (build FProcMeshSection_new example_ops)) < 2 ^ 31"
    by (simp_all add: v)
  have b: "80 < length (SerializeMesh (build FProcMeshSection_new example_ops) [])"
    by (simp add: SerializeMesh_eq length_wire_format v)
  have c: "length (Bytes \<lparr>Bytes = truncated_stream, Offset = 80, ArIsError = False\<rparr>)
        < Offset \<lparr>Bytes = truncated_stream, Offset = 80, ArIsError = False\<rparr> + 4"
    by (simp add: truncated_stream_def SerializeMesh_eq length_wire_format v)
  have e: "length (ProcVertexBuffer FProcMeshSection_new) = 0"
    by (simp add: FProcMeshSection_new_def)
  note w = truncated_sets_flag_and_goes_on [where s = "build FProcMeshSection_new example_ops"
      and n = 80 and L = zero_locals and t = FProcMeshSection_new
      and Ar = "\<lparr>Bytes = truncated_stream, Offset = 80, ArIsError = False\<rparr>" and old = 1,
      OF a b]
  have f: "fst (read32 \<lparr>Bytes = truncated_stream, Offset = 80, ArIsError = False\<rparr> 1) = 1
      \<and> ArIsError (snd (read32 \<lparr>Bytes = truncated_stream, Offset = 80, ArIsError = False\<rparr> 1))"
    using w [THEN conjunct2, THEN conjunct2] c by blast
  show ?thesis
    using a b c f w [THEN conjunct1] w [THEN conjunct2, THEN conjunct1] by (simp add: v e)
qed

text \<open>
  C4, as the specification states it: a negative decoded count makes the safe decode
  fail with \<open>InvalidCount\<close> at once. The code has no such error. On a stream whose two
  counts are both \<open>-1\<close>, \<^verbatim>\<open>DeserializeMesh\<close> reads the vertex count, the box and the
  index count, all 32 bytes, sets no error flag and leaves the section as it was.
\<close>

theorem negative_count_counterexample:
  "sint (fst (read32 (FMemoryReader_new negative_count_stream) 0)) = - 1
   \<and> DeserializeMesh zero_locals (FMemoryReader_new negative_count_stream) FProcMeshSection_new =
       (FProcMeshSection_new,
        \<lparr>Bytes = negative_count_stream, Offset = 32, ArIsError = False\<rparr>)"
  by code_simp

text \<open>
  C4, amended. A negative decoded count raises no error and stops nothing: the loop
  over that count runs no pass, so nothing is appended for it, and the decode goes on
  with the field after it. On a stream that holds, for each count, as many records as
  the count when it is positive and none when it is negative, \<^verbatim>\<open>DeserializeMesh\<close>
  appends exactly those records and ends after them without error.
\<close>

theorem negative_count_skips_loop:
  assumes "sint vn < 0 \<or> sint inum < 0"
    and "int (length vs) = max 0 (sint vn)" and "int (length ws) = max 0 (sint inum)"
  shows "DeserializeMesh L
           (FMemoryReader_new (bytes_of_word32 vn @ box_record B @ concat (map vertex_record vs) @
              bytes_of_word32 inum @ concat (map bytes_of_word32 ws) @ rest)) t =
           (foldl AddIndex (foldl AddVertex t vs) ws,
            \<lparr>Bytes = bytes_of_word32 vn @ box_record B @ concat (map vertex_record vs) @
                bytes_of_word32 inum @ concat (map bytes_of_word32 ws) @ rest,
             Offset = 32 + 28 * length vs + 4 * length ws, ArIsError = False\<rparr>)
       \<and> (sint vn < 0 \<longrightarrow> vs = []) \<and> (sint inum < 0 \<longrightarrow> ws = [])"
proof -
  let ?bs = "bytes_of_word32 vn @ box_record B @ concat (map vertex_record vs) @
              bytes_of_word32 inum @ concat (map bytes_of_word32 ws) @ rest"
  have "drop (Offset (FMemoryReader_new ?bs)) (Bytes (FMemoryReader_new ?bs)) = ?bs"
    by (simp add: FMemoryReader_new_def)
  from DeserializeMesh_stream [OF _ this assms(2,3), of L t]
  have "DeserializeMesh L (FMemoryReader_new ?bs) t =
          (foldl AddIndex (foldl AddVertex t vs) ws,
           \<lparr>Bytes = ?bs, Offset = 32 + 28 * length vs + 4 * length ws, ArIsError = False\<rparr>)"
    by (simp add: FMemoryReader_new_def)
  moreover have "sint vn < 0 \<longrightarrow> vs = []"
    using assms(2) by (auto simp: max_def)
  moreover have "sint inum < 0 \<longrightarrow> ws = []"
    using assms(3) by (auto simp: max_def)
  ultimately show ?thesis
    by blast
qed

theorem negative_count_skips_loop_witness:
  "(sint (- 1 :: int32) < 0 \<and> int (length ([] :: FProcMeshVertex list)) = max 0 (sint (- 1 :: int32))
    \<and> int (length [7, 8 :: int32]) = max 0 (sint (2 :: int32)))
   \<and> fst (DeserializeMesh zero_locals
        (FMemoryReader_new (bytes_of_word32 (- 1) @ box_record FBox_Init @
           bytes_of_word32 2 @ bytes_of_word32 7 @ bytes_of_word32 8)) FProcMeshSection_new) =
      FProcMeshSection_new\<lparr>ProcIndexBuffer := [7, 8]\<rparr>"
proof -
  have a: "sint (- 1 :: int32) < 0 \<or> sint (2 :: int32) < 0" by simp
  have b: "int (length ([] :: FProcMeshVertex list)) = max 0 (sint (- 1 :: int32))" by simp
  have c: "int (length [7, 8 :: int32]) = max 0 (sint (2 :: int32))" by simp
  note w = negative_count_skips_loop [OF a b c, of zero_locals FBox_Init "[]" FProcMeshSection_new,
      THEN conjunct1]
  show ?thesis
    using w b c
    by (simp add: AddIndex_def FProcMeshSection_new_def)
qed

text \<open>
  C5, as the specification states it: an index value outside \<open>[0, vertexCount)\<close> makes
  the decode fail with \<open>IndexOutOfRange\<close>. The code has no such check. On the stream of
  a section of one vertex with the index values 5 and \<open>-1\<close>, \<^verbatim>\<open>DeserializeMesh\<close> returns
  that section, both index values in its index buffer, and sets no error flag.
\<close>

theorem index_out_of_range_counterexample:
  "length (ProcVertexBuffer bad_index_section) = 1
   \<and> ProcIndexBuffer bad_index_section = [5, - 1]
   \<and> DeserializeMesh zero_locals (FMemoryReader_new (SerializeMesh bad_index_section []))
        FProcMeshSection_new =
       (bad_index_section,
        \<lparr>Bytes = SerializeMesh bad_index_section [], Offset = 68, ArIsError = False\<rparr>)"
  by code_simp

text \<open>
  C5, amended. \<^verbatim>\<open>DeserializeMesh\<close> appends every decoded index value as it is, with no
  check against the number of vertices: whatever the index values of the section
  written, the decoded index buffer holds them all, in order, and the reader ends
  without error.
\<close>

theorem index_values_unchecked:
  assumes "length (ProcVertexBuffer s) < 2 ^ 31" and "length (ProcIndexBuffer s) < 2 ^ 31"
  shows "ProcIndexBuffer (fst (DeserializeMesh L (FMemoryReader_new (SerializeMesh s [])) t)) =
           ProcIndexBuffer t @ ProcIndexBuffer s
       \<and> \<not> ArIsError (snd (DeserializeMesh L (FMemoryReader_new (SerializeMesh s [])) t))"
proof -
  have "drop (Offset (FMemoryReader_new (SerializeMesh s [])))
          (Bytes (FMemoryReader_new (SerializeMesh s []))) = wire_format s @ []"
    by (simp add: FMemoryReader_new_def SerializeMesh_eq)
  from DeserializeMesh_wire_format [OF _ this assms, of L t]
  show ?thesis
    by (simp add: FMemoryReader_new_def)
qed

theorem index_values_unchecked_witness:
  "length (ProcVertexBuffer bad_index_section) < 2 ^ 31
   \<and> length (ProcIndexBuffer bad_index_section) < 2 ^ 31
   \<and> ProcIndexBuffer (fst (DeserializeMesh zero_locals
        (FMemoryReader_new (SerializeMesh bad_index_section [])) FProcMeshSection_new)) = [5, - 1]
   \<and> \<not> ArIsError (snd (DeserializeMesh zero_locals
        (FMemoryReader_new (SerializeMesh bad_index_section [])) FProcMeshSection_new))"
proof -
  have a: "length (ProcVertexBuffer bad_index_section) < 2 ^ 31"
    "length (ProcIndexBuffer bad_index_section) < 2 ^ 31"
    by (simp_all add: bad_index_section_def)
  note w = index_values_unchecked [OF a, of zero_locals FProcMeshSection_new]
  show ?thesis
    using a w by (simp add: bad_index_section_def FProcMeshSection_new_def)
qed

text \<open>
  C6, as the specification states it: after any sequence of \<^verbatim>\<open>AddVertex\<close> calls the
  box's min and max are the component-wise minimum and maximum of all inserted
  positions. A position can be NaN, and every comparison with a NaN is false: after
  \<open>(1, 1, 1)\<close>, a NaN position and \<open>(5, -2, 0)\<close> the box is the single point
  \<open>(5, -2, 0)\<close>. Its min corner has \<open>X = 5\<close> though a vertex with \<open>X = 1\<close> was
  inserted, and \<open>1 \<le> 5\<close> holds while \<open>5 \<le> 1\<close> does not: the box is not the bound of
  the inserted positions.
\<close>

theorem AddVertex_box_nan_counterexample:
  "inserted_vertices nan_ops =
     [vertex_at 0x3F800000 0x3F800000 0x3F800000 1,
      vertex_at 0x7FC00000 0x7FC00000 0x7FC00000 2,
      vertex_at 0x40A00000 0xC0000000 0 3]
   \<and> SectionLocalBox (build FProcMeshSection_new nan_ops) =
        \<lparr>Min_corner = \<lparr>X = 0x40A00000, Y = 0xC0000000, Z = 0\<rparr>,
         Max_corner = \<lparr>X = 0x40A00000, Y = 0xC0000000, Z = 0\<rparr>, IsValid = True\<rparr>
   \<and> float_le 0x3F800000 0x40A00000 \<and> \<not> float_le 0x40A00000 0x3F800000
   \<and> \<not> tight_box (SectionLocalBox (build FProcMeshSection_new nan_ops))
          (inserted_vertices nan_ops)"
  by code_simp

text \<open>
  C6, amended. After any sequence of \<^verbatim>\<open>AddVertex\<close> calls (with index appends between
  them or not) on a new section, or on a section just \<^verbatim>\<open>Reset\<close>, that inserted at least
  one vertex and no position with a NaN component, the box is valid and each component
  of its min corner is the least, each component of its max corner the greatest, of
  that component over the inserted positions.
\<close>

theorem AddVertex_box_tight:
  assumes "inserted_vertices ops \<noteq> []" and "list_all no_nan_position (inserted_vertices ops)"
  shows "tight_box (SectionLocalBox (build FProcMeshSection_new ops)) (inserted_vertices ops)
       \<and> tight_box (SectionLocalBox (build (Reset t) ops)) (inserted_vertices ops)"
proof -
  have "ProcVertexBuffer (build FProcMeshSection_new ops) = inserted_vertices ops"
    by (simp add: ProcVertexBuffer_build FProcMeshSection_new_def)
  then have "SectionLocalBox (build FProcMeshSection_new ops) =
      foldl FBox_add FBox_Init (map Pos (inserted_vertices ops))"
    using build_box_replay [of ops] by simp
  then show ?thesis
    using replay_tight [OF assms] by (simp add: Reset_eq_new)
qed

theorem AddVertex_box_tight_witness:
  "inserted_vertices (map Add_Vertex example_vertices) \<noteq> []
   \<and> list_all no_nan_position (inserted_vertices (map Add_Vertex example_vertices))
   \<and> tight_box (SectionLocalBox (build FProcMeshSection_new (map Add_Vertex example_vertices)))
        (inserted_vertices (map Add_Vertex example_vertices))
   \<and> SectionLocalBox (build FProcMeshSection_new (map Add_Vertex example_vertices)) =
        \<lparr>Min_corner = \<lparr>X = 0xBF800000, Y = 0, Z = 0xC0000000\<rparr>,
         Max_corner = \<lparr>X = 0x3F800000, Y = 0x40A00000, Z = 0\<rparr>, IsValid = True\<rparr>"
proof -
  have a: "inserted_vertices (map Add_Vertex example_vertices) \<noteq> []"
    by (simp add: example_vertices_def)
  have b: "list_all no_nan_position (inserted_vertices (map Add_Vertex example_vertices))"
    by (simp add: example_vertices_def vertex_at_def no_nan_position_def float_is_nan_def
        float_magnitude_def)
  have c: "SectionLocalBox (build FProcMeshSection_new (map Add_Vertex example_vertices)) =
        \<lparr>Min_corner = \<lparr>X = 0xBF800000, Y = 0, Z = 0xC0000000\<rparr>,
         Max_corner = \<lparr>X = 0x3F800000, Y = 0x40A00000, Z = 0\<rparr>, IsValid = True\<rparr>"
    by (simp add: build_def example_vertices_def vertex_at_def FProcMeshSection_new_def
        FBox_ForceInitToZero_def AddVertex_def Pos_def FBox_add_def FBox_Init_def
        ZeroVector_def FMath_Min_def FMath_Max_def float_le_def float_is_nan_def float_key_def
        float_magnitude_def)
  show ?thesis
    using a b c AddVertex_box_tight [OF a b, THEN conjunct1]
    by simp
qed

text \<open>
  C7. On the stream that \<^verbatim>\<open>SerializeMesh\<close> writes for a section,
  \<^verbatim>\<open>DeserializeMeshFast\<close> and \<^verbatim>\<open>DeserializeMesh\<close>, each into a new section, give the same
  vertex buffer and the same index buffer: those of the section written.
\<close>

theorem fast_safe_same_buffers:
  assumes "length (ProcVertexBuffer s) < 2 ^ 31" and "length (ProcIndexBuffer s) < 2 ^ 31"
  shows "map_option ProcVertexBuffer (decode_fast (SerializeMesh s [])) =
           Some (ProcVertexBuffer (decode_safe L (SerializeMesh s [])))
       \<and> map_option ProcIndexBuffer (decode_fast (SerializeMesh s [])) =
           Some (ProcIndexBuffer (decode_safe L (SerializeMesh s [])))
       \<and> ProcVertexBuffer (decode_safe L (SerializeMesh s [])) = ProcVertexBuffer s
       \<and> ProcIndexBuffer (decode_safe L (SerializeMesh s [])) = ProcIndexBuffer s"
  by (simp add: decode_safe_wire_format [OF assms] decode_fast_wire_format [OF assms])

theorem fast_safe_same_buffers_witness:
  "length (ProcVertexBuffer wrong_box_section) < 2 ^ 31
   \<and> length (ProcIndexBuffer wrong_box_section) < 2 ^ 31
   \<and> map_option ProcVertexBuffer (decode_fast (SerializeMesh wrong_box_section [])) =
        Some (ProcVertexBuffer (decode_safe zero_locals (SerializeMesh wrong_box_section [])))
   \<and> map_option ProcIndexBuffer (decode_fast (SerializeMesh wrong_box_section [])) =
        Some (ProcIndexBuffer (decode_safe zero_locals (SerializeMesh wrong_box_section [])))
   \<and> ProcVertexBuffer (decode_safe zero_locals (SerializeMesh wrong_box_section [])) =
        [vertex_at 0x40A00000 0x40A00000 0x40A00000 1]
   \<and> ProcIndexBuffer (decode_safe zero_locals (SerializeMesh wrong_box_section [])) = [0]"
proof -
  have a: "length (ProcVertexBuffer wrong_box_section) < 2 ^ 31"
    "length (ProcIndexBuffer wrong_box_section) < 2 ^ 31"
    by (simp_all add: wrong_box_section_def)
  note w = fast_safe_same_buffers [OF a, of zero_locals]
  have v: "ProcVertexBuffer wrong_box_section = [vertex_at 0x40A00000 0x40A00000 0x40A00000 1]"
    "ProcIndexBuffer wrong_box_section = [0]"
    by (simp_all add: wrong_box_section_def)
  show ?thesis
    using a w [THEN conjunct1] w [THEN conjunct2, THEN conjunct1]
      w [THEN conjunct2, THEN conjunct2]
    by (simp only: v)
qed

text \<open>
  C8. \<^verbatim>\<open>SerializeMesh\<close> appends to the archive, in this order: the vertex count as an
  \<^verbatim>\<open>int32\<close>; the six box values, min corner before max corner; for each vertex in
  buffer order its seven scalars, position, normal, material index; the index count as
  an \<^verbatim>\<open>int32\<close>; each index value in buffer order. The number of bytes written is fixed
  by the two counts: 4 + 24 + 28 a vertex + 4 + 4 an index.
\<close>

theorem SerializeMesh_field_order:
  "SerializeMesh s ar =
     ar @ bytes_of_word32 (word_of_nat (length (ProcVertexBuffer s))) @
     (bytes_of_word32 (X (Min_corner (SectionLocalBox s))) @
      bytes_of_word32 (Y (Min_corner (SectionLocalBox s))) @
      bytes_of_word32 (Z (Min_corner (SectionLocalBox s))) @
      bytes_of_word32 (X (Max_corner (SectionLocalBox s))) @
      bytes_of_word32 (Y (Max_corner (SectionLocalBox s))) @
      bytes_of_word32 (Z (Max_corner (SectionLocalBox s)))) @
     concat (map (\<lambda>v. bytes_of_word32 (PositionX v) @ bytes_of_word32 (PositionY v) @
                        bytes_of_word32 (PositionZ v) @ bytes_of_word32 (NormalX v) @
                        bytes_of_word32 (NormalY v) @ bytes_of_word32 (NormalZ v) @
                        bytes_of_word32 (MatIdx v)) (ProcVertexBuffer s)) @
     bytes_of_word32 (word_of_nat (length (ProcIndexBuffer s))) @
     concat (map bytes_of_word32 (ProcIndexBuffer s))
   \<and> SerializeMesh s ar = ar @ wire_format s
   \<and> length (SerializeMesh s ar) =
       length ar + 4 + 24 + 28 * length (ProcVertexBuffer s) + 4 + 4 * length (ProcIndexBuffer s)"
proof -
  have "vertex_record = (\<lambda>v. bytes_of_word32 (PositionX v) @ bytes_of_word32 (PositionY v) @
                        bytes_of_word32 (PositionZ v) @ bytes_of_word32 (NormalX v) @
                        bytes_of_word32 (NormalY v) @ bytes_of_word32 (NormalZ v) @
                        bytes_of_word32 (MatIdx v))"
    by (rule ext) (simp add: vertex_record_def)
  then show ?thesis
    by (simp add: SerializeMesh_eq length_wire_format)
      (simp add: wire_format_def box_record_def Num_def)
qed

text \<open>
  C9. \<^verbatim>\<open>Reset\<close> empties the vertex buffer and the index buffer and returns the box to
  its empty state: the section it leaves is the section the constructor makes, so every
  later sequence of \<^verbatim>\<open>AddVertex\<close> calls and index appends, and every encoding after it,
  gives what it gives on a new section.
\<close>

theorem Reset_as_new:
  "ProcVertexBuffer (Reset s) = []
   \<and> ProcIndexBuffer (Reset s) = []
   \<and> SectionLocalBox (Reset s) = FBox_Init
   \<and> Reset s = FProcMeshSection_new
   \<and> build (Reset s) ops = build FProcMeshSection_new ops
   \<and> SerializeMesh (build (Reset s) ops) ar = SerializeMesh (build FProcMeshSection_new ops) ar"
proof -
  have "Reset s = FProcMeshSection_new"
    by (simp add: Reset_def FProcMeshSection_new_def FBox_ForceInitToZero_def)
  then show ?thesis
    by (simp add: FProcMeshSection_new_def FBox_ForceInitToZero_def)
qed

text \<open>
  C10. \<^verbatim>\<open>DeserializeMesh\<close> does not clear the section it decodes into. Decoding the
  stream of a section \<open>s\<close> into any section \<open>t\<close> replays \<^verbatim>\<open>AddVertex\<close> on \<open>t\<close> for each
  vertex of the stream and then appends each index: the vertices of \<open>s\<close> come after
  those of \<open>t\<close>, the indices of \<open>s\<close> after those of \<open>t\<close>, and the box of \<open>t\<close> is extended
  by the decoded positions.
\<close>

theorem DeserializeMesh_appends:
  assumes "length (ProcVertexBuffer s) < 2 ^ 31" and "length (ProcIndexBuffer s) < 2 ^ 31"
  shows "fst (DeserializeMesh L (FMemoryReader_new (SerializeMesh s [])) t) =
           foldl AddIndex (foldl AddVertex t (ProcVertexBuffer s)) (ProcIndexBuffer s)
       \<and> ProcVertexBuffer (fst (DeserializeMesh L (FMemoryReader_new (SerializeMesh s [])) t)) =
           ProcVertexBuffer t @ ProcVertexBuffer s
       \<and> ProcIndexBuffer (fst (DeserializeMesh L (FMemoryReader_new (SerializeMesh s [])) t)) =
           ProcIndexBuffer t @ ProcIndexBuffer s
       \<and> SectionLocalBox (fst (DeserializeMesh L (FMemoryReader_new (SerializeMesh s [])) t)) =
           foldl FBox_add (SectionLocalBox t) (map Pos (ProcVertexBuffer s))"
proof -
  have "drop (Offset (FMemoryReader_new (SerializeMesh s [])))
          (Bytes (FMemoryReader_new (SerializeMesh s []))) = wire_format s @ []"
    by (simp add: FMemoryReader_new_def SerializeMesh_eq)
  from DeserializeMesh_wire_format [OF _ this assms, of L t]
  show ?thesis
    by (simp add: FMemoryReader_new_def foldl_AddVertex foldl_AddIndex)
qed

theorem DeserializeMesh_appends_witness:
  "length (ProcVertexBuffer (build FProcMeshSection_new example_ops)) < 2 ^ 31
   \<and> length (ProcIndexBuffer (build FProcMeshSection_new example_ops)) < 2 ^ 31
   \<and> ProcVertexBuffer (fst (DeserializeMesh zero_locals
        (FMemoryReader_new (SerializeMesh (build FProcMeshSection_new example_ops) []))
        (build FProcMeshSection_new example_ops))) =
      [vertex_at 0x3F800000 0 0 1, vertex_at 0xBF800000 0x40A00000 0 2,
       vertex_at 0x3F800000 0 0 1, vertex_at 0xBF800000 0x40A00000 0 2]
   \<and> ProcIndexBuffer (fst (DeserializeMesh zero_locals
        (FMemoryReader_new (SerializeMesh (build FProcMeshSection_new example_ops) []))
        (build FProcMeshSection_new example_ops))) = [0, 1, 0, 1]"
proof -
  have b: "length (ProcVertexBuffer (build FProcMeshSection_new example_ops)) < 2 ^ 31"
    "length (ProcIndexBuffer (build FProcMeshSection_new example_ops)) < 2 ^ 31"
    by (simp_all add: build_def example_ops_def FProcMeshSection_new_def AddVertex_def AddIndex_def)
  have v: "ProcVertexBuffer (build FProcMeshSection_new example_ops) =
      [vertex_at 0x3F800000 0 0 1, vertex_at 0xBF800000 0x40A00000 0 2]"
    "ProcIndexBuffer (build FProcMeshSection_new example_ops) = [0, 1]"
    by (simp_all add: build_def example_ops_def FProcMeshSection_new_def AddVertex_def AddIndex_def)
  note w = DeserializeMesh_appends [OF b, of zero_locals "build FProcMeshSection_new example_ops"]
  show ?thesis
    using b w [THEN conjunct2, THEN conjunct1] w [THEN conjunct2, THEN conjunct2, THEN conjunct1]
    by (simp add: v)
qed

end
